theory Spec2Isabelle
  imports
    Complex_Main
    "HOL-Library.Word"
    "HOL-Library.Log_Nat"
    "HOL-Library.Signed_Division"
    "HOL-Library.Multiset"
begin

section \<open>The checkout gateway of fail-fast/api-service/main.go\<close>

text \<open>
  The development embeds the circuit-breaker-protected checkout handler and its metrics
  aggregator. The functions of \<^verbatim>\<open>src/fail-fast/api-service/main.go\<close> are transcribed
  one by one; the mutex of \<^verbatim>\<open>Metrics\<close> only serialises the calls, so each function
  is modelled as one atomic step on the state it locks. Two things that the program
  takes from outside are modelled beside it: the arithmetic of doubles, and the breaker
  package that \<^verbatim>\<open>main.go\<close> imports.
\<close>

subsection \<open>Data\<close>

text \<open>
  \<^verbatim>\<open>time.Duration\<close> is an \<^verbatim>\<open>int64\<close> count of nanoseconds: a 64-bit word read
  through \<^const>\<open>sint\<close>, whose addition wraps around as Go's does.
\<close>

type_synonym Duration = "64 word"

text \<open>
  The values of Go's \<^verbatim>\<open>error\<close> interface that reach the handler: the two sentinel
  errors exported by the breaker package, the transport error of \<^verbatim>\<open>client.Get\<close>,
  and the error \<^verbatim>\<open>callPaymentService\<close> builds from a status code. A \<^verbatim>\<open>nil\<close> error
  is \<^const>\<open>None\<close>.
\<close>

datatype Error =
    ErrTooManyRequests
  | ErrOpenState
  | TransportFailure string
  | ServiceError int

text \<open>
  \<^verbatim>\<open>gobreaker.State\<close>, in the order of the package's constants; \<^verbatim>\<open>main.go\<close> names
  \<^verbatim>\<open>StateOpen\<close> and \<^verbatim>\<open>StateHalfOpen\<close>.
\<close>

datatype State = StateClosed | StateHalfOpen | StateOpen

text \<open>
  The struct \<^verbatim>\<open>Metrics\<close> (lines 23 to 31) without its mutex. The four counters are Go
  \<^verbatim>\<open>int\<close>s. Each of them is bounded by \<^verbatim>\<open>TotalRequests\<close>, which is the length of
  \<^verbatim>\<open>LatencyHistory\<close>, and a slice never holds \<open>2^63\<close> elements, so their wrap-around is
  out of reach and they are integers here. \<^verbatim>\<open>TotalLatency\<close> has no such bound and
  keeps its 64 bits.
\<close>

record Metrics =
  TotalRequests :: int
  SuccessfulRequests :: int
  FailedRequests :: int
  CircuitOpenRejects :: int
  TotalLatency :: Duration
  LatencyHistory :: "Duration list"

text \<open>The zero-valued \<^verbatim>\<open>&Metrics{}\<close> of line 34.\<close>

definition metrics0 :: Metrics where
  "metrics0 =
     \<lparr>TotalRequests = 0, SuccessfulRequests = 0, FailedRequests = 0,
      CircuitOpenRejects = 0, TotalLatency = 0, LatencyHistory = []\<rparr>"

subsection \<open>updateMetrics\<close>

text \<open>
  Lines 171 to 187. The three unconditional updates come first, then the branch on
  \<^verbatim>\<open>err != nil\<close> with the nested test of the breaker state.
\<close>

definition updateMetrics :: "Error option \<Rightarrow> Duration \<Rightarrow> State \<Rightarrow> Metrics \<Rightarrow> Metrics" where
  "updateMetrics err latency state m =
     (let m1 = m\<lparr>TotalRequests := TotalRequests m + 1\<rparr>;
          m2 = m1\<lparr>TotalLatency := TotalLatency m1 + latency\<rparr>;
          m3 = m2\<lparr>LatencyHistory := LatencyHistory m2 @ [latency]\<rparr>
      in if err \<noteq> None then
           (let m4 = m3\<lparr>FailedRequests := FailedRequests m3 + 1\<rparr>
            in if state = StateOpen
               then m4\<lparr>CircuitOpenRejects := CircuitOpenRejects m4 + 1\<rparr>
               else m4)
         else m3\<lparr>SuccessfulRequests := SuccessfulRequests m3 + 1\<rparr>)"

text \<open>
  One recorded attempt is the triple handed to \<^verbatim>\<open>updateMetrics\<close>; a history of
  attempts is recorded from left to right.
\<close>

type_synonym attempt = "Error option \<times> Duration \<times> State"

fun record_attempts :: "attempt list \<Rightarrow> Metrics \<Rightarrow> Metrics" where
  "record_attempts [] m = m"
| "record_attempts ((err, latency, state) # as) m =
     record_attempts as (updateMetrics err latency state m)"

subsection \<open>IEEE double arithmetic\<close>

text \<open>
  The program computes three quantities in \<^verbatim>\<open>float64\<close>: the failure ratio of
  \<^verbatim>\<open>ReadyToTrip\<close>, the success rate of \<^verbatim>\<open>handleMetrics\<close> and the index of
  \<^verbatim>\<open>calculatePercentile\<close>. A finite double is represented by the rational it denotes,
  and every operation is the exact operation followed by rounding to the nearest double,
  ties to the even significand, as IEEE 754 prescribes and Go implements. All values of
  this program are far below \<open>2^1024\<close>, so overflow to infinity is not represented.
\<close>

type_synonym float64 = rat

text \<open>The exponent \<open>e\<close> with \<open>2^e \<le> x < 2^(e+1)\<close>, for positive \<open>x\<close>.\<close>

definition binade :: "rat \<Rightarrow> int" where
  "binade x = (if 1 \<le> x then bitlen \<lfloor>x\<rfloor> - 1 else - bitlen (\<lceil>1 / x\<rceil> - 1))"

definition round_half_even :: "rat \<Rightarrow> int" where
  "round_half_even y =
     (let f = \<lfloor>y\<rfloor>; r = y - of_int f
      in if r < 1 / 2 then f else if 1 / 2 < r then f + 1 else if even f then f else f + 1)"

text \<open>
  The spacing of the doubles around \<open>x\<close>: 53 significant bits, and the fixed spacing of
  the subnormal range below \<open>2^-1022\<close>.
\<close>

definition quantum :: "rat \<Rightarrow> rat" where
  "quantum x = 2 powi (max (binade \<bar>x\<bar>) (- 1022) - 52)"

definition round64 :: "rat \<Rightarrow> float64" where
  "round64 x =
     (if x = 0 then 0
      else sgn x * of_int (round_half_even (\<bar>x\<bar> / quantum x)) * quantum x)"

text \<open>The conversion \<^verbatim>\<open>float64(n)\<close> of an integer and the operators on doubles.\<close>

definition float64_of_int :: "int \<Rightarrow> float64" where
  "float64_of_int n = round64 (of_int n)"

definition fdiv64 :: "float64 \<Rightarrow> float64 \<Rightarrow> float64" where
  "fdiv64 a b = round64 (a / b)"

definition fmul64 :: "float64 \<Rightarrow> float64 \<Rightarrow> float64" where
  "fmul64 a b = round64 (a * b)"

definition fsub64 :: "float64 \<Rightarrow> float64 \<Rightarrow> float64" where
  "fsub64 a b = round64 (a - b)"

text \<open>The conversion \<^verbatim>\<open>int(f)\<close> drops the fraction, towards zero.\<close>

definition int_of_float64 :: "float64 \<Rightarrow> int" where
  "int_of_float64 f = (if 0 \<le> f then \<lfloor>f\<rfloor> else \<lceil>f\<rceil>)"

text \<open>
  A decimal constant of the source, such as \<^verbatim>\<open>0.95\<close>, denotes the double nearest
  to it.
\<close>

definition literal64 :: "rat \<Rightarrow> float64" where
  "literal64 x = round64 x"

subsection \<open>The breaker's configuration in main\<close>

text \<open>
  Modelled from the spec: \<^verbatim>\<open>gobreaker.Counts\<close>, the argument of \<^verbatim>\<open>ReadyToTrip\<close>,
  is a type of the imported breaker package. \<^verbatim>\<open>main.go\<close> reads its fields
  \<^verbatim>\<open>ConsecutiveFailures\<close>, \<^verbatim>\<open>Requests\<close> and \<^verbatim>\<open>TotalFailures\<close> and converts the
  latter two to doubles; the counters are the package's \<^verbatim>\<open>uint32\<close> values, the two
  remaining ones count the successes.
\<close>

record Counts =
  Requests :: "32 word"
  TotalSuccesses :: "32 word"
  TotalFailures :: "32 word"
  ConsecutiveSuccesses :: "32 word"
  ConsecutiveFailures :: "32 word"

text \<open>Instants and \<^verbatim>\<open>Settings\<close> durations are counts of nanoseconds.\<close>

type_synonym Time = int

definition Second :: int where
  "Second = 1000000000"

text \<open>Lines 42 to 44: the three numeric fields of \<^verbatim>\<open>gobreaker.Settings\<close>.\<close>

definition MaxRequests :: "32 word" where
  "MaxRequests = 2"

definition Interval :: int where
  "Interval = 20 * Second"

definition Timeout :: int where
  "Timeout = 10 * Second"

text \<open>
  Lines 45 to 55, the closure \<^verbatim>\<open>ReadyToTrip\<close>, with its two early returns and the
  ratio computed in doubles.
\<close>

definition ReadyToTrip :: "Counts \<Rightarrow> bool" where
  "ReadyToTrip counts =
     (if 3 \<le> ConsecutiveFailures counts then True
      else if 5 \<le> Requests counts then
        (let failureRatio =
               fdiv64 (float64_of_int (uint (TotalFailures counts)))
                      (float64_of_int (uint (Requests counts)))
         in 1 / 2 \<le> failureRatio)
      else False)"

subsection \<open>callPaymentService\<close>

text \<open>
  What \<^verbatim>\<open>client.Get\<close> hands back: a transport error (which includes the client's
  three-second timeout) or a response, of which the function reads the status code only.
\<close>

datatype GetResult = GetError string | GetResponse int

definition StatusOK :: int where
  "StatusOK = 200"

text \<open>
  Lines 158 to 168. The HTTP client is the function \<open>get\<close> acting on the outside world
  \<open>'w\<close>; the result is \<^verbatim>\<open>(resp, nil)\<close> as \<^const>\<open>Inr\<close> of the status code, or
  \<^verbatim>\<open>(nil, err)\<close> as \<^const>\<open>Inl\<close>.
\<close>

definition callPaymentService ::
  "(string \<Rightarrow> 'w \<Rightarrow> GetResult \<times> 'w) \<Rightarrow> string \<Rightarrow> 'w \<Rightarrow> (Error + int) \<times> 'w" where
  "callPaymentService get baseURL w =
     (case get (baseURL @ ''/process'') w of
        (GetError e, w') \<Rightarrow> (Inl (TransportFailure e), w')
      | (GetResponse code, w') \<Rightarrow>
          if code \<noteq> StatusOK then (Inl (ServiceError code), w') else (Inr code, w'))"

text \<open>Lines 190 to 195; \<^verbatim>\<open>os.Getenv\<close> yields the empty string for an unset variable.\<close>

definition getFlakyServiceURL :: "string \<Rightarrow> string" where
  "getFlakyServiceURL env = (if env \<noteq> [] then env else ''http://flaky-service:8081'')"

subsection \<open>handleCheckout\<close>

text \<open>
  Lines 99 to 155. The handler reaches the breaker through two methods only,
  \<^verbatim>\<open>cb.Execute\<close> and \<^verbatim>\<open>cb.State\<close>; they are the parameters \<open>execute\<close> and
  \<open>cbState\<close>, acting on the breaker \<open>'b\<close> and the outside world \<open>'w\<close>. \<open>decoded\<close>
  tells whether the request body was valid JSON, \<open>duration\<close> is the value of
  \<^verbatim>\<open>time.Since(start)\<close>. The result is the HTTP status written and the state left
  behind; the JSON bodies and the log lines are not modelled.
\<close>

definition handleCheckout ::
  "bool \<Rightarrow> (string \<Rightarrow> 'w \<Rightarrow> GetResult \<times> 'w) \<Rightarrow> string \<Rightarrow>
   (('w \<Rightarrow> (Error + int) \<times> 'w) \<Rightarrow> 'b \<Rightarrow> 'w \<Rightarrow> (Error + int) \<times> 'b \<times> 'w) \<Rightarrow>
   ('b \<Rightarrow> State \<times> 'b) \<Rightarrow> Duration \<Rightarrow>
   'b \<times> Metrics \<times> 'w \<Rightarrow> int \<times> 'b \<times> Metrics \<times> 'w" where
  "handleCheckout decoded get env execute cbState duration s =
     (case s of (cb, m, w) \<Rightarrow>
        if \<not> decoded then (400, cb, m, w)
        else
          (let flakyURL = getFlakyServiceURL env in
           case execute (callPaymentService get flakyURL) cb w of
             (result, cb1, w1) \<Rightarrow>
               (let err = (case result of Inl e \<Rightarrow> Some e | Inr _ \<Rightarrow> None) in
                case cbState cb1 of
                  (st, cb2) \<Rightarrow>
                    (let m1 = updateMetrics err duration st m
                     in if err = Some ErrOpenState then (503, cb2, m1, w1)
                        else if err \<noteq> None then (502, cb2, m1, w1)
                        else (200, cb2, m1, w1)))))"

subsection \<open>calculatePercentile and handleMetrics\<close>

text \<open>
  A slice refers to a backing array, and \<^verbatim>\<open>calculatePercentile\<close> is the one place
  where two slices exist side by side: the history it is given and the slice it makes.
  There the arrays live in a store, addressed by numbers; \<open>next_free\<close> is the first
  address not yet handed out. Everywhere else the history is the only slice and is
  represented by its contents.
\<close>

record store =
  arrays :: "nat \<Rightarrow> Duration list"
  next_free :: nat

text \<open>\<^verbatim>\<open>make([]time.Duration, n)\<close>: a new array of \<open>n\<close> zeros at a fresh address.\<close>

definition make_slice :: "nat \<Rightarrow> store \<Rightarrow> nat \<times> store" where
  "make_slice n h =
     (next_free h,
      h\<lparr>arrays := (arrays h)(next_free h := replicate n 0), next_free := next_free h + 1\<rparr>)"

text \<open>
  The builtin \<^verbatim>\<open>copy(dst, src)\<close> overwrites the first \<open>min (len dst) (len src)\<close>
  elements of \<open>dst\<close>.
\<close>

definition copy_slice :: "nat \<Rightarrow> nat \<Rightarrow> store \<Rightarrow> store" where
  "copy_slice dst src h =
     h\<lparr>arrays := (arrays h)
        (dst := take (min (length (arrays h dst)) (length (arrays h src))) (arrays h src)
                @ drop (min (length (arrays h dst)) (length (arrays h src))) (arrays h dst))\<rparr>"

text \<open>
  \<^verbatim>\<open>sort.Slice\<close> with the comparison \<^verbatim>\<open>sorted[i] < sorted[j]\<close> on \<^verbatim>\<open>int64\<close>
  values rearranges the array in place into ascending signed order. Equal durations are
  the same value, so the rearrangement is unique although \<^verbatim>\<open>sort.Slice\<close> is not
  stable.
\<close>

definition ascending :: "Duration list \<Rightarrow> Duration list" where
  "ascending xs = sort_key sint xs"

definition sort_Slice :: "nat \<Rightarrow> store \<Rightarrow> store" where
  "sort_Slice a h = h\<lparr>arrays := (arrays h)(a := ascending (arrays h a))\<rparr>"

text \<open>
  Lines 255 to 272. \<open>latencies\<close> is the address of the caller's array; the result is
  the returned duration and the store the function leaves behind.
\<close>

definition calculatePercentile :: "nat \<Rightarrow> float64 \<Rightarrow> store \<Rightarrow> Duration \<times> store" where
  "calculatePercentile latencies percentile h =
     (if length (arrays h latencies) = 0 then (0, h)
      else
        (let made = make_slice (length (arrays h latencies)) h;
             sorted = fst made;
             h1 = snd made;
             h2 = copy_slice sorted latencies h1;
             h3 = sort_Slice sorted h2;
             index0 = int_of_float64
                        (fmul64 (float64_of_int (int (length (arrays h3 sorted))))
                                percentile);
             index = (if int (length (arrays h3 sorted)) \<le> index0
                      then int (length (arrays h3 sorted)) - 1 else index0)
         in (arrays h3 sorted ! nat index, h3)))"

text \<open>The store in which the latency history is the only array, at address 0.\<close>

definition store_of :: "Duration list \<Rightarrow> store" where
  "store_of xs = \<lparr>arrays = (\<lambda>a. [])(0 := xs), next_free = 1\<rparr>"

text \<open>
  The quotient of two \<^verbatim>\<open>int64\<close> values rounds towards zero; the divisor is never zero
  where the program divides.
\<close>

definition div64 :: "64 word \<Rightarrow> 64 word \<Rightarrow> 64 word" where
  "div64 a b = word_of_int (sint a sdiv sint b)"

text \<open>
  The response of \<^verbatim>\<open>handleMetrics\<close>, one field per JSON key. The four latencies are
  kept as durations; the handler prints them with \<^verbatim>\<open>String()\<close>.
\<close>

record MetricsResponse =
  system_status :: string
  circuit_state :: State
  circuit_counts :: Counts
  total_requests :: int
  success_count :: int
  failure_count :: int
  fast_fails :: int
  success_rate :: float64
  error_rate :: float64
  avg_latency :: Duration
  median_latency :: Duration
  p95_latency :: Duration
  p99_latency :: Duration

text \<open>
  Lines 197 to 253. \<open>currentCounts\<close> and \<open>currentState\<close> are what \<^verbatim>\<open>cb.Counts()\<close>
  and \<^verbatim>\<open>cb.State()\<close> return. The three calls of \<^verbatim>\<open>calculatePercentile\<close> are
  given the slice \<^verbatim>\<open>metrics.LatencyHistory\<close>, and the metrics are handed back with the
  contents that the array of this slice has after them.
\<close>

definition handleMetrics :: "Counts \<Rightarrow> State \<Rightarrow> Metrics \<Rightarrow> MetricsResponse \<times> Metrics" where
  "handleMetrics currentCounts currentState m =
     (let avgLatency =
            (if 0 < TotalRequests m
             then div64 (TotalLatency m) (word_of_int (TotalRequests m)) else 0);
          successRate =
            (if 0 < TotalRequests m
             then fmul64 (fdiv64 (float64_of_int (SuccessfulRequests m))
                                 (float64_of_int (TotalRequests m))) 100
             else 0);
          errorRate = (if 0 < TotalRequests m then fsub64 100 successRate else 0)
      in case calculatePercentile 0 (literal64 (50 / 100)) (store_of (LatencyHistory m)) of
           (p50, h1) \<Rightarrow>
         case calculatePercentile 0 (literal64 (95 / 100)) h1 of
           (p95, h2) \<Rightarrow>
         case calculatePercentile 0 (literal64 (99 / 100)) h2 of
           (p99, h3) \<Rightarrow>
             (\<lparr>system_status = ''operational'',
               circuit_state = currentState,
               circuit_counts = currentCounts,
               total_requests = TotalRequests m,
               success_count = SuccessfulRequests m,
               failure_count = FailedRequests m,
               fast_fails = CircuitOpenRejects m,
               success_rate = successRate,
               error_rate = errorRate,
               avg_latency = avgLatency,
               median_latency = p50,
               p95_latency = p95,
               p99_latency = p99\<rparr>,
              m\<lparr>LatencyHistory := arrays h3 0\<rparr>))"

subsection \<open>The breaker package\<close>

text \<open>
  Modelled from the spec: the breaker itself is the package
  \<^verbatim>\<open>github.com/sony/gobreaker\<close>, which \<^verbatim>\<open>main.go\<close> imports and configures; its code
  is not among the sources. The definitions of this subsection follow section 4.1 of the
  spec and keep the names \<^verbatim>\<open>main.go\<close> uses from the package. Where the package's
  published interface is more specific than the spec, the interface is kept: a call
  refused in the half-open state is reported with the package's second sentinel error,
  \<^verbatim>\<open>ErrTooManyRequests\<close>, and the half-open state closes once \<^verbatim>\<open>MaxRequests\<close>
  consecutive probes have succeeded. Each method holds the breaker's mutex, so it is one
  atomic step; \<open>now\<close> is the value of \<^verbatim>\<open>time.Now()\<close> the method reads.
\<close>

text \<open>
  Modelled from the spec: the breaker's state, its counters for the current window, the
  number of the window (the generation) and the instant at which the window or the open
  period ends (\<^const>\<open>None\<close> for the zero \<^verbatim>\<open>time.Time\<close>).
\<close>

record CircuitBreaker =
  cb_state :: State
  cb_generation :: "64 word"
  cb_counts :: Counts
  cb_expiry :: "Time option"

text \<open>Modelled from the spec: the four updates of the outcome recorder (section 4.3).\<close>

definition onRequest :: "Counts \<Rightarrow> Counts" where
  "onRequest c = c\<lparr>Requests := Requests c + 1\<rparr>"

definition onSuccess :: "Counts \<Rightarrow> Counts" where
  "onSuccess c =
     c\<lparr>TotalSuccesses := TotalSuccesses c + 1,
       ConsecutiveSuccesses := ConsecutiveSuccesses c + 1,
       ConsecutiveFailures := 0\<rparr>"

definition onFailure :: "Counts \<Rightarrow> Counts" where
  "onFailure c =
     c\<lparr>TotalFailures := TotalFailures c + 1,
       ConsecutiveFailures := ConsecutiveFailures c + 1,
       ConsecutiveSuccesses := 0\<rparr>"

definition clear :: Counts where
  "clear =
     \<lparr>Requests = 0, TotalSuccesses = 0, TotalFailures = 0,
      ConsecutiveSuccesses = 0, ConsecutiveFailures = 0\<rparr>"

text \<open>Modelled from the spec: \<^verbatim>\<open>expiry.Before(now)\<close>; the zero time is before every instant.\<close>

definition before :: "Time option \<Rightarrow> Time \<Rightarrow> bool" where
  "before expiry now = (case expiry of None \<Rightarrow> True | Some t \<Rightarrow> t < now)"

text \<open>
  Modelled from the spec: a new window. The counters are reset, and the expiry is the
  end of the tracking window when closed, the end of the open period when open, and
  unset when half-open.
\<close>

definition toNewGeneration :: "Time \<Rightarrow> CircuitBreaker \<Rightarrow> CircuitBreaker" where
  "toNewGeneration now cb =
     cb\<lparr>cb_generation := cb_generation cb + 1,
        cb_counts := clear,
        cb_expiry :=
          (case cb_state cb of
             StateClosed \<Rightarrow> if Interval = 0 then None else Some (now + Interval)
           | StateOpen \<Rightarrow> Some (now + Timeout)
           | StateHalfOpen \<Rightarrow> None)\<rparr>"

text \<open>Modelled from the spec: a transition; entering a state starts a new window.\<close>

definition setState :: "State \<Rightarrow> Time \<Rightarrow> CircuitBreaker \<Rightarrow> CircuitBreaker" where
  "setState st now cb =
     (if cb_state cb = st then cb else toNewGeneration now (cb\<lparr>cb_state := st\<rparr>))"

text \<open>
  Modelled from the spec: the lazily evaluated timers (section 9). A closed breaker
  rolls its window when the window has expired, an open breaker becomes half-open when
  the open period has expired. The comparison is the package's \<^verbatim>\<open>Before\<close>, which is
  strict; no statement below depends on what happens at the very instant of expiry.
\<close>

definition currentState :: "Time \<Rightarrow> CircuitBreaker \<Rightarrow> CircuitBreaker" where
  "currentState now cb =
     (case cb_state cb of
        StateClosed \<Rightarrow>
          if cb_expiry cb \<noteq> None \<and> before (cb_expiry cb) now
          then toNewGeneration now cb else cb
      | StateOpen \<Rightarrow>
          if before (cb_expiry cb) now then setState StateHalfOpen now cb else cb
      | StateHalfOpen \<Rightarrow> cb)"

text \<open>Modelled from the spec: \<^verbatim>\<open>NewCircuitBreaker\<close> with the settings of \<^verbatim>\<open>main\<close>.\<close>

definition NewCircuitBreaker :: "Time \<Rightarrow> CircuitBreaker" where
  "NewCircuitBreaker now =
     toNewGeneration now
       \<lparr>cb_state = StateClosed, cb_generation = 0, cb_counts = clear, cb_expiry = None\<rparr>"

text \<open>
  Modelled from the spec: the admission check. An open breaker refuses, a half-open
  breaker refuses once \<^verbatim>\<open>MaxRequests\<close> probes have been admitted; an admitted
  call is counted and is given the generation it belongs to.
\<close>

definition beforeRequest :: "Time \<Rightarrow> CircuitBreaker \<Rightarrow> (Error + 64 word) \<times> CircuitBreaker" where
  "beforeRequest now cb =
     (let cb1 = currentState now cb in
      if cb_state cb1 = StateOpen then (Inl ErrOpenState, cb1)
      else if cb_state cb1 = StateHalfOpen \<and> MaxRequests \<le> Requests (cb_counts cb1)
      then (Inl ErrTooManyRequests, cb1)
      else (Inr (cb_generation cb1), cb1\<lparr>cb_counts := onRequest (cb_counts cb1)\<rparr>))"

text \<open>
  Modelled from the spec: recording an outcome. A closed breaker counts it and, after a
  failure, asks \<^const>\<open>ReadyToTrip\<close>; a half-open breaker opens on a failure and closes
  after enough successes. An outcome of an earlier generation is dropped.
\<close>

definition recordSuccess :: "State \<Rightarrow> Time \<Rightarrow> CircuitBreaker \<Rightarrow> CircuitBreaker" where
  "recordSuccess st now cb =
     (case st of
        StateClosed \<Rightarrow> cb\<lparr>cb_counts := onSuccess (cb_counts cb)\<rparr>
      | StateHalfOpen \<Rightarrow>
          (let cb1 = cb\<lparr>cb_counts := onSuccess (cb_counts cb)\<rparr>
           in if MaxRequests \<le> ConsecutiveSuccesses (cb_counts cb1)
              then setState StateClosed now cb1 else cb1)
      | StateOpen \<Rightarrow> cb)"

definition recordFailure :: "State \<Rightarrow> Time \<Rightarrow> CircuitBreaker \<Rightarrow> CircuitBreaker" where
  "recordFailure st now cb =
     (case st of
        StateClosed \<Rightarrow>
          (let cb1 = cb\<lparr>cb_counts := onFailure (cb_counts cb)\<rparr>
           in if ReadyToTrip (cb_counts cb1) then setState StateOpen now cb1 else cb1)
      | StateHalfOpen \<Rightarrow> setState StateOpen now cb
      | StateOpen \<Rightarrow> cb)"

definition afterRequest :: "Time \<Rightarrow> 64 word \<Rightarrow> bool \<Rightarrow> CircuitBreaker \<Rightarrow> CircuitBreaker" where
  "afterRequest now generation success cb =
     (let cb1 = currentState now cb in
      if cb_generation cb1 \<noteq> generation then cb1
      else if success then recordSuccess (cb_state cb1) now cb1
      else recordFailure (cb_state cb1) now cb1)"

text \<open>
  Modelled from the spec: \<^verbatim>\<open>Execute\<close> (section 4.2). \<open>now\<close> and \<open>now'\<close> are the
  instants read before and after the call \<open>req\<close>, which acts on the outside world
  \<open>'w\<close>; a refused call leaves the world as it is. An outcome is a success when its
  error is \<^verbatim>\<open>nil\<close>.
\<close>

definition Execute ::
  "Time \<Rightarrow> Time \<Rightarrow> ('w \<Rightarrow> (Error + 'r) \<times> 'w) \<Rightarrow> CircuitBreaker \<Rightarrow> 'w \<Rightarrow>
   (Error + 'r) \<times> CircuitBreaker \<times> 'w" where
  "Execute now now' req cb w =
     (case beforeRequest now cb of
        (Inl err, cb1) \<Rightarrow> (Inl err, cb1, w)
      | (Inr generation, cb1) \<Rightarrow>
          (case req w of
             (result, w') \<Rightarrow>
               (result, afterRequest now' generation (\<not> isl result) cb1, w')))"

text \<open>Modelled from the spec: the method \<^verbatim>\<open>State\<close>, which evaluates the timers too.\<close>

definition State_of :: "Time \<Rightarrow> CircuitBreaker \<Rightarrow> State \<times> CircuitBreaker" where
  "State_of now cb = (cb_state (currentState now cb), currentState now cb)"

text \<open>
  The checkout handler on this breaker. \<open>now\<close>, \<open>now'\<close> and \<open>now''\<close> are the instants
  read by \<^verbatim>\<open>Execute\<close> before and after the call and by \<^verbatim>\<open>State\<close>.
\<close>

definition checkout ::
  "(string \<Rightarrow> 'w \<Rightarrow> GetResult \<times> 'w) \<Rightarrow> string \<Rightarrow> Time \<Rightarrow> Time \<Rightarrow> Time \<Rightarrow> Duration \<Rightarrow>
   CircuitBreaker \<times> Metrics \<times> 'w \<Rightarrow> int \<times> CircuitBreaker \<times> Metrics \<times> 'w" where
  "checkout get env now now' now'' duration s =
     handleCheckout True get env (Execute now now') (State_of now'') duration s"

text \<open>
  A downstream that counts how often it is called and answers with the status codes of
  a given list, one per call (and 200 when the list is used up).
\<close>

definition scripted_get :: "string \<Rightarrow> nat \<times> int list \<Rightarrow> GetResult \<times> nat \<times> int list" where
  "scripted_get url w =
     (case w of (calls, codes) \<Rightarrow>
        (case codes of
           [] \<Rightarrow> (GetResponse 200, calls + 1, [])
         | code # rest \<Rightarrow> (GetResponse code, calls + 1, rest)))"

text \<open>
  Feeding a breaker a sequence of downstream outcomes (\<^const>\<open>True\<close> for a success), the
  \<open>i\<close>-th call being made and answered at the \<open>i\<close>-th instant; the result lists the
  breaker as it is after each outcome.
\<close>

definition outcome :: "bool \<Rightarrow> unit \<Rightarrow> (Error + int) \<times> unit" where
  "outcome ok w = (if ok then Inr 200 else Inl (ServiceError 500), w)"

fun feed :: "CircuitBreaker \<Rightarrow> (Time \<times> bool) list \<Rightarrow> CircuitBreaker list" where
  "feed cb [] = []"
| "feed cb ((now, ok) # rest) =
     (case Execute now now (outcome ok) cb () of
        (result, cb', w') \<Rightarrow> cb' # feed cb' rest)"

text \<open>
  Two breakers reached by runs of the model. \<open>tripped\<close> is a breaker created at
  instant 0 after three failed calls, made one, two and three seconds later.
  \<open>two_probes_admitted\<close> is that breaker fourteen seconds after its creation, when
  the open period is over and two concurrent requests have passed the admission check
  and are still waiting for the downstream.
\<close>

definition tripped :: CircuitBreaker where
  "tripped =
     last (feed (NewCircuitBreaker 0)
             [(1 * Second, False), (2 * Second, False), (3 * Second, False)])"

definition two_probes_admitted :: CircuitBreaker where
  "two_probes_admitted =
     snd (beforeRequest (14 * Second) (snd (beforeRequest (14 * Second) tripped)))"

text \<open>
  \<^verbatim>\<open>handleMetrics\<close> as the handler of the endpoint (lines 197 to 253 with the two
  readings of lines 217 and 218 inside): it reads \<^verbatim>\<open>cb.Counts()\<close>, then
  \<^verbatim>\<open>cb.State()\<close>, and builds the response from them and the metrics. The two methods
  are the parameters \<open>cbCounts\<close> and \<open>cbState\<close>; the readings do not depend on the
  metrics nor the metrics on them, so reading first is the same as the source's order.
  The result is the response, the breaker and the metrics left behind.
\<close>

definition metrics_handler ::
  "('b \<Rightarrow> Counts) \<Rightarrow> ('b \<Rightarrow> State \<times> 'b) \<Rightarrow> 'b \<times> Metrics \<Rightarrow>
   MetricsResponse \<times> 'b \<times> Metrics" where
  "metrics_handler cbCounts cbState s =
     (case s of (cb, m) \<Rightarrow>
        (let currentCounts = cbCounts cb;
             read = cbState cb;
             currentState = fst read;
             cb1 = snd read
         in case handleMetrics currentCounts currentState m of
              (response, m1) \<Rightarrow> (response, cb1, m1)))"

text \<open>
  Modelled from the spec: the method \<^verbatim>\<open>Counts\<close> of the breaker package hands out the
  raw counters (section 6) and evaluates no timer. \<open>snapshot\<close> is the metrics handler
  on this breaker, \<open>now\<close> being the instant that \<^verbatim>\<open>State\<close> reads.
\<close>

definition Counts_of :: "CircuitBreaker \<Rightarrow> Counts" where
  "Counts_of cb = cb_counts cb"

definition snapshot ::
  "Time \<Rightarrow> CircuitBreaker \<times> Metrics \<Rightarrow> MetricsResponse \<times> CircuitBreaker \<times> Metrics" where
  "snapshot now s = metrics_handler Counts_of (State_of now) s"

text \<open>
  A breaker created at instant 0 that has seen one failed and one successful call, one
  and two seconds later; its first window ends at 20 seconds.
\<close>

definition two_calls_counted :: CircuitBreaker where
  "two_calls_counted =
     last (feed (NewCircuitBreaker 0) [(1 * Second, False), (2 * Second, True)])"

text \<open>The three relations between the fields that the aggregator maintains.\<close>

definition metrics_inv :: "Metrics \<Rightarrow> bool" where
  "metrics_inv m =
     (TotalRequests m = SuccessfulRequests m + FailedRequests m \<and>
      int (length (LatencyHistory m)) = TotalRequests m \<and>
      CircuitOpenRejects m \<le> FailedRequests m)"

section \<open>Rounding to the nearest double\<close>

lemma powi_neg_nat: "0 \<le> k \<Longrightarrow> (2::rat) powi (- k) = inverse (2 ^ nat k)"
  by (simp add: power_int_def power_one_over inverse_eq_divide)

lemma powi_nonneg_nat: "0 \<le> k \<Longrightarrow> (2::rat) powi k = 2 ^ nat k"
  by (simp add: power_int_def)

lemma binade_lower:
  assumes "0 < x"
  shows "2 powi binade x \<le> x"
proof (cases "1 \<le> x")
  case True
  then have f: "0 < \<lfloor>x\<rfloor>" by linarith
  from bitlen_bounds [OF f] have "2 ^ nat (bitlen \<lfloor>x\<rfloor> - 1) \<le> \<lfloor>x\<rfloor>" by simp
  then have "(of_int (2 ^ nat (bitlen \<lfloor>x\<rfloor> - 1)) :: rat) \<le> of_int \<lfloor>x\<rfloor>"
    by (simp only: of_int_le_iff)
  also have "\<dots> \<le> x" by simp
  finally have "(2::rat) ^ nat (bitlen \<lfloor>x\<rfloor> - 1) \<le> x" by simp
  moreover have "1 \<le> bitlen \<lfloor>x\<rfloor>" using f by (simp add: bitlen_alt_def)
  ultimately show ?thesis using True by (simp add: binade_def powi_nonneg_nat)
next
  case False
  then have x1: "x < 1" by simp
  then have z: "1 < 1 / x" using assms by simp
  then have c: "0 < \<lceil>1 / x\<rceil> - 1" by linarith
  define k where "k = bitlen (\<lceil>1 / x\<rceil> - 1)"
  have k1: "1 \<le> k" using c by (simp add: k_def bitlen_alt_def)
  from bitlen_bounds [OF c] have "\<lceil>1 / x\<rceil> - 1 < 2 ^ nat k" by (simp add: k_def)
  then have "\<lceil>1 / x\<rceil> \<le> 2 ^ nat k" by simp
  then have "1 / x \<le> of_int (2 ^ nat k)" by (simp only: ceiling_le_iff)
  then have "1 / x \<le> 2 ^ nat k" by simp
  then have "1 \<le> 2 ^ nat k * x" using assms by (simp add: field_simps)
  then have "inverse (2 ^ nat k) \<le> x" by (simp add: field_simps)
  moreover have "binade x = - k" using False by (simp add: binade_def k_def)
  ultimately show ?thesis using k1 by (simp only: powi_neg_nat)
qed

lemma binade_upper:
  assumes "0 < x"
  shows "x < 2 powi (binade x + 1)"
proof (cases "1 \<le> x")
  case True
  then have f: "0 < \<lfloor>x\<rfloor>" by linarith
  from bitlen_bounds [OF f] have "\<lfloor>x\<rfloor> < 2 ^ nat (bitlen \<lfloor>x\<rfloor>)" by simp
  then have "\<lfloor>x\<rfloor> + 1 \<le> 2 ^ nat (bitlen \<lfloor>x\<rfloor>)" by simp
  then have "(of_int (\<lfloor>x\<rfloor> + 1) :: rat) \<le> of_int (2 ^ nat (bitlen \<lfloor>x\<rfloor>))"
    by (simp only: of_int_le_iff)
  moreover have "x < of_int (\<lfloor>x\<rfloor> + 1)" by linarith
  ultimately have "x < 2 ^ nat (bitlen \<lfloor>x\<rfloor>)" by simp
  moreover have "binade x + 1 = bitlen \<lfloor>x\<rfloor>" using True by (simp add: binade_def)
  moreover have "0 \<le> bitlen \<lfloor>x\<rfloor>" by (rule bitlen_nonneg)
  ultimately show ?thesis by (simp add: powi_nonneg_nat)
next
  case False
  then have x1: "x < 1" by simp
  then have z: "1 < 1 / x" using assms by simp
  then have c: "0 < \<lceil>1 / x\<rceil> - 1" by linarith
  define k where "k = bitlen (\<lceil>1 / x\<rceil> - 1)"
  have k1: "1 \<le> k" using c by (simp add: k_def bitlen_alt_def)
  from bitlen_bounds [OF c] have "2 ^ nat (k - 1) \<le> \<lceil>1 / x\<rceil> - 1" by (simp add: k_def)
  then have "2 ^ nat (k - 1) < \<lceil>1 / x\<rceil>" by simp
  then have "of_int (2 ^ nat (k - 1)) < 1 / x" by (simp only: less_ceiling_iff)
  then have "2 ^ nat (k - 1) < 1 / x" by simp
  then have "2 ^ nat (k - 1) * x < 1" using assms by (simp add: field_simps)
  then have "x < inverse (2 ^ nat (k - 1))" by (simp add: field_simps)
  moreover have "binade x + 1 = - (k - 1)" using False by (simp add: binade_def k_def)
  ultimately show ?thesis using k1 by (simp only: powi_neg_nat)
qed

lemma powi_two_mono: "a \<le> b \<Longrightarrow> (2::rat) powi a \<le> 2 powi b"
  by (rule power_int_increasing) simp_all

lemma powi_two_less: "(2::rat) powi a < 2 powi b \<Longrightarrow> a < b"
  by (rule ccontr) (use powi_two_mono [of b a] in simp)

lemma binade_unique:
  assumes "2 powi e \<le> x" and "x < 2 powi (e + 1)"
  shows "binade x = e"
proof -
  have "(0::rat) < 2 powi e" by simp
  with assms have x: "0 < x" by linarith
  have "2 powi e < (2::rat) powi (binade x + 1)"
    using assms(1) binade_upper [OF x] by linarith
  then have "e < binade x + 1" by (rule powi_two_less)
  moreover have "2 powi binade x < (2::rat) powi (e + 1)"
    using assms(2) binade_lower [OF x] by linarith
  then have "binade x < e + 1" by (rule powi_two_less)
  ultimately show ?thesis by simp
qed

lemma round_half_even_cases:
  "round_half_even y = \<lfloor>y\<rfloor> \<or> round_half_even y = \<lfloor>y\<rfloor> + 1"
  by (simp add: round_half_even_def Let_def)

lemma round_half_even_error: "\<bar>of_int (round_half_even y) - y\<bar> \<le> 1 / 2"
proof -
  have "of_int \<lfloor>y\<rfloor> \<le> y" "y < of_int \<lfloor>y\<rfloor> + 1" by linarith+
  then show ?thesis
    by (auto simp: round_half_even_def Let_def abs_le_iff)
qed

lemma round_half_even_of_int [simp]: "round_half_even (of_int k) = k"
  by (simp add: round_half_even_def)


lemma round_half_even_le_ceiling: "round_half_even y \<le> \<lceil>y\<rceil>"
proof -
  have "y = of_int \<lfloor>y\<rfloor> \<or> \<lceil>y\<rceil> = \<lfloor>y\<rfloor> + 1"
    by (metis ceiling_altdef)
  then show ?thesis
    by (auto simp: round_half_even_def Let_def)
qed

lemma round_half_even_ge_floor: "\<lfloor>y\<rfloor> \<le> round_half_even y"
  using round_half_even_cases [of y] by auto

lemma quantum_pos [simp]: "0 < quantum x"
  by (simp add: quantum_def)

lemma quantum_nonzero [simp]: "quantum x \<noteq> 0"
  using quantum_pos [of x] by linarith

lemma powi_two_add: "(2::rat) powi (a + b) = 2 powi a * 2 powi b"
  by (rule power_int_add) simp

lemma powi_two_52: "(2::rat) powi 52 * 2 powi (e - 52) = 2 powi e"
  using powi_two_add [of 52 "e - 52"] by simp

lemma powi_two_53: "(2::rat) powi 53 * 2 powi (e - 52) = 2 powi (e + 1)"
  using powi_two_add [of 53 "e - 52"] by (simp add: ac_simps)

lemma round64_pos_eq:
  "0 < x \<Longrightarrow> round64 x = of_int (round_half_even (x / quantum x)) * quantum x"
  by (simp add: round64_def)

lemma round64_error:
  assumes "0 < x"
  shows "\<bar>round64 x - x\<bar> \<le> quantum x / 2"
proof -
  define q where "q = quantum x"
  have q: "0 < q" by (simp add: q_def)
  define m where "m = round_half_even (x / q)"
  have "\<bar>of_int m - x / q\<bar> \<le> 1 / 2"
    unfolding m_def by (rule round_half_even_error)
  then have "\<bar>of_int m - x / q\<bar> * q \<le> 1 / 2 * q"
    using q by (simp only: mult_le_cancel_right_pos)
  moreover have "\<bar>of_int m - x / q\<bar> * q = \<bar>of_int m * q - x\<bar>"
  proof -
    have "\<bar>of_int m - x / q\<bar> * q = \<bar>(of_int m - x / q) * q\<bar>"
      using q by (simp add: abs_mult)
    also have "(of_int m - x / q) * q = of_int m * q - x"
      using q by (simp add: field_simps)
    finally show ?thesis .
  qed
  ultimately have "\<bar>of_int m * q - x\<bar> \<le> q / 2" by linarith
  moreover have "round64 x = of_int m * q"
    unfolding m_def q_def using assms by (rule round64_pos_eq)
  ultimately show ?thesis by (simp only: q_def)
qed

lemma round64_exact:
  assumes "0 < x" and "x / quantum x = of_int K"
  shows "round64 x = x"
proof -
  have "round64 x = of_int K * quantum x"
    using assms by (simp add: round64_pos_eq)
  also have "\<dots> = x / quantum x * quantum x" by (simp add: assms(2))
  also have "\<dots> = x" by simp
  finally show ?thesis .
qed

lemma quantum_eq:
  "0 < x \<Longrightarrow> - 1022 \<le> binade x \<Longrightarrow> quantum x = 2 powi (binade x - 52)"
  by (simp add: quantum_def max_def abs_of_pos)

lemma round64_ge_binade:
  assumes "0 < x" and "- 1022 \<le> binade x"
  shows "2 powi binade x \<le> round64 x"
proof -
  define q where "q = quantum x"
  have q: "0 < q" by (simp add: q_def)
  have qe: "q = 2 powi (binade x - 52)" unfolding q_def using assms by (rule quantum_eq)
  have "2 powi binade x = (2::rat) powi 52 * q"
    by (simp only: qe powi_two_52)
  then have e: "2 powi binade x / q = (2::rat) ^ 52" using q by (simp add: field_simps)
  have "2 powi binade x / q \<le> x / q"
    using binade_lower [OF assms(1)] q by (simp add: divide_right_mono)
  then have "of_int (2 ^ 52) \<le> x / q" by (simp add: e)
  then have "2 ^ 52 \<le> \<lfloor>x / q\<rfloor>" by (simp only: le_floor_iff)
  then have "2 ^ 52 \<le> round_half_even (x / q)"
    using round_half_even_ge_floor [of "x / q"] by linarith
  then have "(of_int (2 ^ 52) :: rat) \<le> of_int (round_half_even (x / q))"
    by (simp only: of_int_le_iff)
  then have m: "of_int (2 ^ 52) * q \<le> of_int (round_half_even (x / q)) * q"
    using q by (simp only: mult_le_cancel_right_pos)
  have "2 powi binade x = of_int (2 ^ 52) * q"
    using e q by (simp add: field_simps)
  also note m
  also have "of_int (round_half_even (x / q)) * q = round64 x"
    unfolding q_def using assms(1) by (rule round64_pos_eq [symmetric])
  finally show ?thesis .
qed

lemma round64_le_binade:
  assumes "0 < x"
  shows "round64 x \<le> 2 powi (max (binade x) (- 1022) + 1)"
proof -
  define E where "E = max (binade x) (- 1022)"
  define q where "q = quantum x"
  have q: "0 < q" by (simp add: q_def)
  have qe: "q = 2 powi (E - 52)"
    using assms by (simp add: q_def quantum_def E_def abs_of_pos)
  have "2 powi (E + 1) = (2::rat) powi 53 * q"
    by (simp only: qe powi_two_53)
  then have e: "2 powi (E + 1) / q = (2::rat) ^ 53" using q by (simp add: field_simps)
  have "x < 2 powi (binade x + 1)" using assms by (rule binade_upper)
  also have "\<dots> \<le> 2 powi (E + 1)" by (rule powi_two_mono) (simp add: E_def)
  finally have "x / q < 2 powi (E + 1) / q" using q by (simp add: divide_strict_right_mono)
  then have "x / q \<le> of_int (2 ^ 53)" by (simp add: e)
  then have "\<lceil>x / q\<rceil> \<le> 2 ^ 53" by (simp only: ceiling_le_iff)
  then have "round_half_even (x / q) \<le> 2 ^ 53"
    using round_half_even_le_ceiling [of "x / q"] by linarith
  then have "(of_int (round_half_even (x / q)) :: rat) \<le> of_int (2 ^ 53)"
    by (simp only: of_int_le_iff)
  then have m: "of_int (round_half_even (x / q)) * q \<le> of_int (2 ^ 53) * q"
    using q by (simp only: mult_le_cancel_right_pos)
  have "round64 x = of_int (round_half_even (x / q)) * q"
    unfolding q_def using assms(1) by (rule round64_pos_eq)
  also note m
  also have "of_int (2 ^ 53) * q = 2 powi (E + 1)"
    using e q by (simp add: field_simps)
  finally show ?thesis by (simp only: E_def)
qed


lemma binade_ge: "2 powi a \<le> x \<Longrightarrow> a \<le> binade x"
proof -
  assume a: "2 powi a \<le> x"
  have "(0::rat) < 2 powi a" by simp
  with a have x: "0 < x" by linarith
  have "2 powi a < (2::rat) powi (binade x + 1)"
    using a binade_upper [OF x] by linarith
  then have "a < binade x + 1" by (rule powi_two_less)
  then show ?thesis by simp
qed

lemma binade_less: "0 < x \<Longrightarrow> x < 2 powi b \<Longrightarrow> binade x < b"
proof -
  assume x: "0 < x" and b: "x < 2 powi b"
  have "2 powi binade x < (2::rat) powi b"
    using b binade_lower [OF x] by linarith
  then show ?thesis by (rule powi_two_less)
qed

lemma powi_two_inverse: "(2::rat) powi (52 - e) * 2 powi (e - 52) = 1"
  using powi_two_add [of "52 - e" "e - 52"] by simp

lemma round64_of_nat:
  assumes "n < 2 ^ 53"
  shows "round64 (of_nat n) = of_nat n"
proof (cases "n = 0")
  case True
  then show ?thesis by (simp add: round64_def)
next
  case False
  define x :: rat where "x = of_nat n"
  have x: "0 < x" using False by (simp add: x_def)
  have "2 powi 0 \<le> x" using False by (simp add: x_def)
  then have e0: "0 \<le> binade x" by (rule binade_ge)
  have "(of_nat n :: rat) < of_nat (2 ^ 53)" using assms by (simp only: of_nat_less_iff)
  then have "x < 2 ^ 53" by (simp add: x_def)
  then have "x < 2 powi 53" by simp
  with x have e53: "binade x < 53" by (rule binade_less)
  have q: "quantum x = 2 powi (binade x - 52)"
    using x e0 by (simp add: quantum_eq)
  have "x / quantum x = x * 2 powi (52 - binade x)"
    using powi_two_inverse [of "binade x"] by (simp add: q field_simps)
  also have "\<dots> = x * 2 ^ nat (52 - binade x)"
    using e53 by (simp add: powi_nonneg_nat)
  also have "\<dots> = of_int (int n * 2 ^ nat (52 - binade x))"
    by (simp add: x_def)
  finally have "round64 x = x" using x by (rule round64_exact [rotated])
  then show ?thesis by (simp add: x_def)
qed

lemma round64_ratio_ge_half:
  fixes a b :: nat
  assumes "0 < b" and "b \<le> 2 ^ 53"
  shows "(1 / 2 \<le> round64 (of_nat a / of_nat b)) = (b \<le> 2 * a)"
proof (cases "b \<le> 2 * a")
  case True
  define x :: rat where "x = of_nat a / of_nat b"
  have "(of_nat b :: rat) \<le> of_nat (2 * a)" using True by (simp only: of_nat_le_iff)
  then have "of_nat b \<le> (2::rat) * of_nat a" by simp
  then have h: "1 / 2 \<le> x" using assms(1) by (simp add: x_def field_simps)
  then have x: "0 < x" by linarith
  have "2 powi (- 1) \<le> x" using h by simp
  then have e: "- 1 \<le> binade x" by (rule binade_ge)
  then have "(2::rat) powi (- 1) \<le> 2 powi binade x" by (rule powi_two_mono)
  also have "\<dots> \<le> round64 x" using x e by (intro round64_ge_binade) simp_all
  finally have "1 / 2 \<le> round64 x" by simp
  then show ?thesis using True by (simp add: x_def)
next
  case False
  define x :: rat where "x = of_nat a / of_nat b"
  have lt: "2 * a < b" using False by simp
  have "round64 x < 1 / 2"
  proof (cases "a = 0")
    case True
    then show ?thesis by (simp add: x_def round64_def)
  next
    case a: False
    have x: "0 < x" using a assms(1) by (simp add: x_def)
    have "(of_nat (2 * a) :: rat) < of_nat b" using lt by (simp only: of_nat_less_iff)
    then have "(2::rat) * of_nat a < of_nat b" by simp
    then have "x < 1 / 2" using assms(1) by (simp add: x_def field_simps)
    then have "x < 2 powi (- 1)" by simp
    with x have e: "binade x < - 1" by (rule binade_less)
    show ?thesis
    proof (cases "binade x = - 2")
      case True
      then have q: "quantum x = 2 powi (- 54)" using x by (simp add: quantum_eq)
      have "2 ^ 54 * int a \<le> (2 ^ 53 - 1) * int b"
        using lt assms(2) by simp
      then have "(of_int (2 ^ 54 * int a) :: rat) \<le> of_int ((2 ^ 53 - 1) * int b)"
        by (simp only: of_int_le_iff)
      then have "2 ^ 54 * (of_nat a :: rat) \<le> (2 ^ 53 - 1) * of_nat b" by simp
      then have "x * 2 ^ 54 \<le> 2 ^ 53 - 1"
        using assms(1) by (simp add: x_def field_simps)
      moreover have "x / quantum x = x * 2 ^ 54"
        by (simp add: q power_int_minus field_simps)
      ultimately have "x / quantum x \<le> of_int (2 ^ 53 - 1)" by simp
      then have "\<lceil>x / quantum x\<rceil> \<le> 2 ^ 53 - 1" by (simp only: ceiling_le_iff)
      then have "round_half_even (x / quantum x) \<le> 2 ^ 53 - 1"
        using round_half_even_le_ceiling [of "x / quantum x"] by linarith
      then have "(of_int (round_half_even (x / quantum x)) :: rat) \<le> of_int (2 ^ 53 - 1)"
        by (simp only: of_int_le_iff)
      then have "of_int (round_half_even (x / quantum x)) * quantum x
          \<le> of_int (2 ^ 53 - 1) * quantum x"
        by (simp only: mult_le_cancel_right_pos quantum_pos)
      also have "\<dots> < 1 / 2" by (simp add: q power_int_minus)
      finally show ?thesis using x by (simp only: round64_pos_eq)
    next
      case False
      with e have "max (binade x) (- 1022) + 1 \<le> - 2" by simp
      then have "(2::rat) powi (max (binade x) (- 1022) + 1) \<le> 2 powi (- 2)"
        by (rule powi_two_mono)
      with round64_le_binade [OF x] have "round64 x \<le> 2 powi (- 2)" by linarith
      then show ?thesis by (simp add: power_int_minus)
    qed
  qed
  then show ?thesis using False by (simp add: x_def)
qed


lemma round64_scaled_index:
  fixes n P :: nat and c d :: rat
  assumes c: "c = of_nat P / 100 - d"
    and d0: "0 \<le> d" and d1: "d * 2 ^ 52 \<le> 1 / 5" and d2: "4 * d * 2 ^ 52 \<le> c"
    and c1: "1 / 2 \<le> c" and P: "P < 100"
    and n0: "0 < n" and n1: "n < 2 ^ 45"
  shows "\<lfloor>round64 (of_nat n * c)\<rfloor> = int (n * P div 100)"
proof -
  define x where "x = of_nat n * c"
  define nd where "nd = of_nat n * d"
  define k where "k = n * P div 100"
  define j where "j = n * P mod 100"
  define e where "e = binade x"
  define q where "q = quantum x"
  define r where "r = round64 x"
  have n1': "(1::rat) \<le> of_nat n" using n0 by simp
  have n45: "(of_nat n :: rat) \<le> 2 ^ 45"
  proof -
    have "(of_nat n :: rat) \<le> of_nat (2 ^ 45)" using n1 by (simp only: of_nat_le_iff)
    then show ?thesis by simp
  qed
  have "1 * c \<le> of_nat n * c" using n1' c1 by (intro mult_right_mono) simp_all
  then have xc: "c \<le> x" by (simp add: x_def)
  then have x0: "0 < x" and xh: "1 / 2 \<le> x" using c1 by linarith+
  have nd0: "0 \<le> nd" using d0 by (simp add: nd_def)
  have "of_nat n * d \<le> 2 ^ 45 * d" using n45 d0 by (rule mult_right_mono)
  then have nd1: "nd \<le> 1 / 640" using d1 by (simp add: nd_def)
  have np: "n * P = 100 * k + j" by (simp add: k_def j_def)
  have "(of_nat (n * P) :: rat) = of_nat (100 * k + j)" by (simp only: np)
  then have "(of_nat n :: rat) * of_nat P = 100 * of_nat k + of_nat j" by simp
  then have xk: "x = of_nat k + of_nat j / 100 - nd"
    by (simp add: x_def c nd_def algebra_simps)
  have j99: "(of_nat j :: rat) \<le> 99"
  proof -
    have "j \<le> 99" by (simp add: j_def)
    then have "(of_nat j :: rat) \<le> of_nat 99" by (simp only: of_nat_le_iff)
    then show ?thesis by simp
  qed
  have "x < 2 powi 45"
  proof -
    have "x \<le> of_nat k + 99 / 100" using xk j99 nd0 by linarith
    moreover have "100 * k + j < 100 * n"
      using P n0 by (simp flip: np)
    then have "k < n" by simp
    then have "k + 1 \<le> n" by simp
    then have "(of_nat (k + 1) :: rat) \<le> of_nat n" by (simp only: of_nat_le_iff)
    then have "(of_nat k :: rat) + 1 \<le> of_nat n" by simp
    ultimately have "x < 2 ^ 45" using n45 by linarith
    then show ?thesis by simp
  qed
  with x0 have e45: "e < 45" unfolding e_def by (rule binade_less)
  have "2 powi (- 1) \<le> x" using xh by simp
  then have e1: "- 1 \<le> e" unfolding e_def by (rule binade_ge)
  have q0: "0 < q" by (simp add: q_def)
  have qe: "q = 2 powi (e - 52)"
    unfolding q_def e_def using x0 e1 [unfolded e_def] by (intro quantum_eq) simp_all
  have "q \<le> 2 powi (- 8)" unfolding qe using e45 by (intro powi_two_mono) simp
  then have q8: "q \<le> 1 / 256" by (simp add: power_int_minus)
  have "\<bar>r - x\<bar> \<le> q / 2" unfolding r_def q_def using x0 by (rule round64_error)
  then have err: "x - q / 2 \<le> r" "r \<le> x + q / 2" by linarith+
  have upper: "r < of_nat k + 1" using err(2) q8 xk j99 nd0 by linarith
  have lower: "of_nat k \<le> r"
  proof (cases "j = 0")
    case False
    then have "1 \<le> j" by simp
    then have "(of_nat 1 :: rat) \<le> of_nat j" by (simp only: of_nat_le_iff)
    then have "(1::rat) \<le> of_nat j" by simp
    then show ?thesis using err(1) q8 xk nd1 by linarith
  next
    case True
    then have xk0: "x = of_nat k - nd" using xk by simp
    have "of_nat n * (4 * d * 2 ^ 52) \<le> of_nat n * c"
      using d2 by (intro mult_left_mono) simp_all
    then have a: "2 ^ 54 * nd \<le> x" by (simp add: nd_def x_def algebra_simps)
    have "x < 2 powi (e + 1)" unfolding e_def using x0 by (rule binade_upper)
    also have "\<dots> = 2 powi 53 * q" by (simp only: qe powi_two_53)
    finally have b: "x < 2 ^ 53 * q" by simp
    have ndq: "2 * nd < q" using a b by simp
    define Ki where "Ki = int k * 2 ^ nat (52 - e)"
    have "of_int Ki * q = of_nat k * (2 powi (52 - e) * q)"
      using e45 by (simp add: Ki_def powi_nonneg_nat)
    also have "\<dots> = of_nat k" by (simp add: qe powi_two_inverse)
    finally have Kq: "of_int Ki * q = of_nat k" .
    define m where "m = round_half_even (x / q)"
    have rm: "r = of_int m * q"
      unfolding r_def m_def q_def using x0 by (rule round64_pos_eq)
    have "(of_int Ki - 1 / 2) * q < x"
      using ndq Kq xk0 by (simp add: algebra_simps)
    then have "of_int Ki - 1 / 2 < x / q" using q0 by (simp add: pos_less_divide_eq)
    moreover have "\<bar>of_int m - x / q\<bar> \<le> 1 / 2"
      unfolding m_def by (rule round_half_even_error)
    ultimately have "(of_int Ki :: rat) - 1 < of_int m" by linarith
    then have "(of_int (Ki - 1) :: rat) < of_int m" by simp
    then have "Ki - 1 < m" by (simp only: of_int_less_iff)
    then have "Ki \<le> m" by simp
    then have "(of_int Ki :: rat) \<le> of_int m" by (simp only: of_int_le_iff)
    then have "of_int Ki * q \<le> of_int m * q"
      using q0 by (simp only: mult_le_cancel_right_pos)
    then show ?thesis by (simp only: Kq rm)
  qed
  have "\<lfloor>r\<rfloor> = int k"
    by (rule floor_unique) (use lower upper in simp_all)
  then show ?thesis by (simp only: r_def x_def k_def)
qed

section \<open>Properties of the metrics aggregator\<close>

lemma updateMetrics_fields:
  "TotalRequests (updateMetrics err latency state m) = TotalRequests m + 1"
  "TotalLatency (updateMetrics err latency state m) = TotalLatency m + latency"
  "LatencyHistory (updateMetrics err latency state m) = LatencyHistory m @ [latency]"
  "SuccessfulRequests (updateMetrics err latency state m) =
     SuccessfulRequests m + (if err = None then 1 else 0)"
  "FailedRequests (updateMetrics err latency state m) =
     FailedRequests m + (if err = None then 0 else 1)"
  "CircuitOpenRejects (updateMetrics err latency state m) =
     CircuitOpenRejects m + (if err \<noteq> None \<and> state = StateOpen then 1 else 0)"
  by (simp_all add: updateMetrics_def Let_def)

lemma metrics_inv_updateMetrics:
  "metrics_inv m \<Longrightarrow> metrics_inv (updateMetrics err latency state m)"
  by (simp add: metrics_inv_def updateMetrics_fields)

lemma metrics_inv_record_attempts:
  "metrics_inv m \<Longrightarrow> metrics_inv (record_attempts as m)"
  by (induction as arbitrary: m) (auto simp: metrics_inv_updateMetrics)

lemma metrics_inv_metrics0: "metrics_inv metrics0"
  by (simp add: metrics_inv_def metrics0_def)

text \<open>
  C10. The zero-valued metrics satisfy the three invariants
  \<open>TotalRequests = SuccessfulRequests + FailedRequests\<close>,
  \<open>len(LatencyHistory) = TotalRequests\<close> and \<open>CircuitOpenRejects \<le> FailedRequests\<close>, and
  every call of \<^verbatim>\<open>updateMetrics\<close> preserves them, whatever error, latency and breaker
  state it is given.
\<close>

theorem updateMetrics_preserves_invariants:
  "metrics_inv metrics0 \<and>
   (metrics_inv m \<longrightarrow> metrics_inv (updateMetrics err latency state m))"
  by (simp add: metrics_inv_metrics0 metrics_inv_updateMetrics)

theorem updateMetrics_preserves_invariants_witness:
  "metrics_inv metrics0 \<and>
   metrics_inv (updateMetrics (Some ErrOpenState) 1000000 StateOpen metrics0)"
  using updateMetrics_preserves_invariants
    [of metrics0 "Some ErrOpenState" 1000000 StateOpen]
  by simp

lemma record_attempts_counts:
  "TotalRequests (record_attempts as m) = TotalRequests m + int (length as) \<and>
   SuccessfulRequests (record_attempts as m) =
     SuccessfulRequests m + int (length (filter (\<lambda>a. fst a = None) as)) \<and>
   FailedRequests (record_attempts as m) =
     FailedRequests m + int (length (filter (\<lambda>a. fst a \<noteq> None) as)) \<and>
   CircuitOpenRejects (record_attempts as m) =
     CircuitOpenRejects m
       + int (length (filter (\<lambda>a. fst a \<noteq> None \<and> snd (snd a) = StateOpen) as))"
  by (induction as m rule: record_attempts.induct) (simp_all add: updateMetrics_fields)

text \<open>
  C2, as the claim states it, fails: one attempt refused by the open circuit
  (\<^verbatim>\<open>err = ErrOpenState\<close>, state open) is counted in \<^verbatim>\<open>FailedRequests\<close> and in
  \<^verbatim>\<open>CircuitOpenRejects\<close>, so the three counts add up to 2 while the total is 1.
\<close>

theorem record_attempts_partition_counterexample:
  "SuccessfulRequests (record_attempts [(Some ErrOpenState, 1000000, StateOpen)] metrics0)
     + FailedRequests (record_attempts [(Some ErrOpenState, 1000000, StateOpen)] metrics0)
     + CircuitOpenRejects (record_attempts [(Some ErrOpenState, 1000000, StateOpen)] metrics0)
     = 2 \<and>
   TotalRequests (record_attempts [(Some ErrOpenState, 1000000, StateOpen)] metrics0) = 1 \<and>
   FailedRequests (record_attempts [(Some ErrOpenState, 1000000, StateOpen)] metrics0) = 1"
  by (simp add: updateMetrics_fields metrics0_def)

text \<open>
  C2, amended. For every sequence of recorded attempts the successes and the failures
  partition the total: \<open>success_count + failure_count = total\<close>, where the total is the
  number of attempts, the successes are the attempts without an error and the failures
  the attempts with one. \<open>rejected_count\<close> is the number of failed attempts recorded
  while the breaker was open; each of them is counted in \<open>failure_count\<close> as well, so
  \<open>rejected_count \<le> failure_count\<close>.
\<close>

theorem record_attempts_partition:
  "SuccessfulRequests (record_attempts as metrics0)
     + FailedRequests (record_attempts as metrics0)
     = TotalRequests (record_attempts as metrics0) \<and>
   TotalRequests (record_attempts as metrics0) = int (length as) \<and>
   SuccessfulRequests (record_attempts as metrics0) =
     int (length (filter (\<lambda>a. fst a = None) as)) \<and>
   FailedRequests (record_attempts as metrics0) =
     int (length (filter (\<lambda>a. fst a \<noteq> None) as)) \<and>
   CircuitOpenRejects (record_attempts as metrics0) =
     int (length (filter (\<lambda>a. fst a \<noteq> None \<and> snd (snd a) = StateOpen) as)) \<and>
   CircuitOpenRejects (record_attempts as metrics0)
     \<le> FailedRequests (record_attempts as metrics0)"
proof -
  have inv: "metrics_inv (record_attempts as metrics0)"
    by (rule metrics_inv_record_attempts) (rule metrics_inv_metrics0)
  show ?thesis
    using inv record_attempts_counts [of as metrics0]
    by (simp add: metrics_inv_def metrics0_def)
qed

section \<open>A refused attempt in the metrics\<close>

lemma updateMetrics_error:
  "updateMetrics (Some e) latency st m =
     m\<lparr>TotalRequests := TotalRequests m + 1,
       FailedRequests := FailedRequests m + 1,
       CircuitOpenRejects := CircuitOpenRejects m + (if st = StateOpen then 1 else 0),
       TotalLatency := TotalLatency m + latency,
       LatencyHistory := LatencyHistory m @ [latency]\<rparr>"
  by (simp add: updateMetrics_def Let_def)

lemma currentState_open:
  "cb_state cb = StateOpen \<Longrightarrow> cb_expiry cb = Some t \<Longrightarrow> now \<le> t \<Longrightarrow> currentState now cb = cb"
  by (simp add: currentState_def before_def)

lemma beforeRequest_open:
  "cb_state cb = StateOpen \<Longrightarrow> cb_expiry cb = Some t \<Longrightarrow> now \<le> t \<Longrightarrow>
   beforeRequest now cb = (Inl ErrOpenState, cb)"
  by (simp add: beforeRequest_def currentState_open)

lemma Execute_open:
  "cb_state cb = StateOpen \<Longrightarrow> cb_expiry cb = Some t \<Longrightarrow> now \<le> t \<Longrightarrow>
   Execute now now' req cb w = (Inl ErrOpenState, cb, w)"
  by (simp add: Execute_def beforeRequest_open)

lemma State_of_open:
  "cb_state cb = StateOpen \<Longrightarrow> cb_expiry cb = Some t \<Longrightarrow> now \<le> t \<Longrightarrow>
   State_of now cb = (StateOpen, cb)"
  by (simp add: State_of_def currentState_open)

text \<open>
  C3, as the claim states it, fails: recording an attempt that the open circuit refused
  changes \<^verbatim>\<open>TotalLatency\<close> and \<^verbatim>\<open>LatencyHistory\<close>, and counts the attempt as a
  failure.
\<close>

theorem rejected_attempt_counterexample:
  "TotalLatency (updateMetrics (Some ErrOpenState) 1000000 StateOpen metrics0)
     \<noteq> TotalLatency metrics0 \<and>
   LatencyHistory (updateMetrics (Some ErrOpenState) 1000000 StateOpen metrics0)
     \<noteq> LatencyHistory metrics0 \<and>
   FailedRequests (updateMetrics (Some ErrOpenState) 1000000 StateOpen metrics0)
     \<noteq> FailedRequests metrics0"
  by (simp add: updateMetrics_fields metrics0_def)

text \<open>
  C3, amended. When \<^verbatim>\<open>Execute\<close> denies admission with \<^verbatim>\<open>ErrOpenState\<close>, the handler
  answers 503 and records the attempt like any other failed attempt: the total and the
  failure count grow by one, the measured duration is added to \<^verbatim>\<open>TotalLatency\<close> and
  appended to \<^verbatim>\<open>LatencyHistory\<close>, and \<^verbatim>\<open>CircuitOpenRejects\<close> grows by one when
  \<^verbatim>\<open>cb.State()\<close> reports the open state. The statement holds for every breaker, given
  by its two methods.
\<close>

theorem rejected_attempt_recorded:
  assumes "execute (callPaymentService get (getFlakyServiceURL env)) cb w
             = (Inl ErrOpenState, cb1, w1)"
    and "cbState cb1 = (st, cb2)"
  shows "handleCheckout True get env execute cbState duration (cb, m, w) =
           (503, cb2,
            m\<lparr>TotalRequests := TotalRequests m + 1,
              FailedRequests := FailedRequests m + 1,
              CircuitOpenRejects := CircuitOpenRejects m + (if st = StateOpen then 1 else 0),
              TotalLatency := TotalLatency m + duration,
              LatencyHistory := LatencyHistory m @ [duration]\<rparr>,
            w1)"
  using assms by (simp add: handleCheckout_def Let_def updateMetrics_error)

theorem rejected_attempt_recorded_witness:
  "handleCheckout True scripted_get [] (Execute 1 1) (State_of 1) 1000000
     (\<lparr>cb_state = StateOpen, cb_generation = 2, cb_counts = clear, cb_expiry = Some 5\<rparr>,
      metrics0, (0, [])) =
   (503, \<lparr>cb_state = StateOpen, cb_generation = 2, cb_counts = clear, cb_expiry = Some 5\<rparr>,
    \<lparr>TotalRequests = 1, SuccessfulRequests = 0, FailedRequests = 1,
     CircuitOpenRejects = 1, TotalLatency = 1000000, LatencyHistory = [1000000]\<rparr>,
    (0, []))"
  using rejected_attempt_recorded
    [of "Execute 1 1" scripted_get "[]"
        "\<lparr>cb_state = StateOpen, cb_generation = 2, cb_counts = clear, cb_expiry = Some 5\<rparr>"
        "(0, [])"
        "\<lparr>cb_state = StateOpen, cb_generation = 2, cb_counts = clear, cb_expiry = Some 5\<rparr>"
        "(0, [])" "State_of 1" StateOpen
        "\<lparr>cb_state = StateOpen, cb_generation = 2, cb_counts = clear, cb_expiry = Some 5\<rparr>"
        1000000 metrics0]
  by (simp add: Execute_open State_of_open metrics0_def)

section \<open>The classification of downstream responses\<close>

text \<open>
  C7, as the claim states it, fails: a response with status 204, a 2xx status, makes
  \<^verbatim>\<open>callPaymentService\<close> return an error.
\<close>

theorem callPaymentService_counterexample:
  "200 \<le> (204::int) \<and> (204::int) < 300 \<and>
   callPaymentService scripted_get ''http://flaky-service:8081'' (0, [204])
     = (Inl (ServiceError 204), 1, [])"
  by (simp add: callPaymentService_def scripted_get_def StatusOK_def)

text \<open>
  C7, amended. \<^verbatim>\<open>callPaymentService\<close> returns a response and no error exactly when
  the downstream answers with status 200; every other status and every transport
  failure is returned as an error.
\<close>

theorem callPaymentService_success_iff:
  "(\<exists>r. fst (callPaymentService get baseURL w) = Inr r) =
     (fst (get (baseURL @ ''/process'') w) = GetResponse 200)"
  by (auto simp: callPaymentService_def StatusOK_def split: prod.splits GetResult.splits)

section \<open>The breaker\<close>

lemma float64_of_uint32: "float64_of_int (uint (w :: 32 word)) = of_nat (unat w)"
proof -
  have "unat w < 2 ^ 32" using unsigned_less [of w, where 'a = nat] by simp
  then have "unat w < 2 ^ 53" by simp
  then have "round64 (of_nat (unat w)) = of_nat (unat w)" by (rule round64_of_nat)
  then show ?thesis by (simp add: float64_of_int_def)
qed

lemma failure_ratio_ge_half:
  fixes tf req :: "32 word"
  assumes "5 \<le> req"
  shows "(1 / 2 \<le> fdiv64 (float64_of_int (uint tf)) (float64_of_int (uint req)))
           = (unat req \<le> 2 * unat tf)"
proof -
  have "5 \<le> unat req" using assms by (simp add: word_le_nat_alt)
  then have pos: "0 < unat req" by simp
  have "unat req < 2 ^ 32" using unsigned_less [of req, where 'a = nat] by simp
  then have le: "unat req \<le> 2 ^ 53" by simp
  show ?thesis
    using round64_ratio_ge_half [OF pos le, of "unat tf"]
    by (simp add: fdiv64_def float64_of_uint32)
qed

lemma ReadyToTrip_iff:
  "ReadyToTrip c =
     (3 \<le> ConsecutiveFailures c \<or>
      (5 \<le> Requests c \<and> unat (Requests c) \<le> 2 * unat (TotalFailures c)))"
proof (cases "3 \<le> ConsecutiveFailures c")
  case True
  then show ?thesis by (simp add: ReadyToTrip_def)
next
  case cf: False
  show ?thesis
  proof (cases "5 \<le> Requests c")
    case True
    show ?thesis
      unfolding ReadyToTrip_def Let_def
      by (simp only: failure_ratio_ge_half [OF True] cf True if_True if_False simp_thms)
  next
    case False
    then show ?thesis using cf by (simp add: ReadyToTrip_def)
  qed
qed

lemma ratio_exact:
  fixes a b :: nat
  assumes "0 < b"
  shows "((1::rat) / 2 \<le> of_nat a / of_nat b) = (b \<le> 2 * a)"
proof -
  have "((1::rat) / 2 \<le> of_nat a / of_nat b) = ((of_nat b :: rat) \<le> 2 * of_nat a)"
    using assms by (simp add: field_simps)
  also have "\<dots> = ((of_nat b :: rat) \<le> of_nat (2 * a))" by simp
  also have "\<dots> = (b \<le> 2 * a)" by (simp only: of_nat_le_iff)
  finally show ?thesis .
qed

lemma ReadyToTrip_exact:
  "ReadyToTrip c =
     (3 \<le> unat (ConsecutiveFailures c) \<or>
      (5 \<le> unat (Requests c) \<and>
       (1::rat) / 2 \<le> of_nat (unat (TotalFailures c)) / of_nat (unat (Requests c))))"
proof (cases "5 \<le> unat (Requests c)")
  case True
  then have "0 < unat (Requests c)" by simp
  then have "((1::rat) / 2 \<le> of_nat (unat (TotalFailures c)) / of_nat (unat (Requests c)))
      = (unat (Requests c) \<le> 2 * unat (TotalFailures c))"
    by (rule ratio_exact)
  moreover have "(3 \<le> ConsecutiveFailures c) = (3 \<le> unat (ConsecutiveFailures c))"
    and "(5 \<le> Requests c) = (5 \<le> unat (Requests c))"
    by (simp_all add: word_le_nat_alt)
  ultimately show ?thesis by (simp only: ReadyToTrip_iff)
next
  case False
  then show ?thesis by (simp add: ReadyToTrip_iff word_le_nat_alt)
qed

lemma currentState_closed:
  "cb_state cb = StateClosed \<Longrightarrow> cb_expiry cb = Some e \<Longrightarrow> now \<le> e \<Longrightarrow>
   currentState now cb = cb"
  by (simp add: currentState_def before_def)

lemma Execute_closed:
  assumes "cb_state cb = StateClosed" and "cb_expiry cb = Some e" and "now \<le> e"
  shows "Execute now now (outcome ok) cb () =
           (if ok then Inr 200 else Inl (ServiceError 500),
            (if ok then cb\<lparr>cb_counts := onSuccess (onRequest (cb_counts cb))\<rparr>
             else if ReadyToTrip (onFailure (onRequest (cb_counts cb)))
                  then setState StateOpen now
                         (cb\<lparr>cb_counts := onFailure (onRequest (cb_counts cb))\<rparr>)
                  else cb\<lparr>cb_counts := onFailure (onRequest (cb_counts cb))\<rparr>),
            ())"
  using assms
  by (simp add: Execute_def beforeRequest_def afterRequest_def currentState_closed
      currentState_def before_def outcome_def recordSuccess_def recordFailure_def Let_def)

lemma NewCircuitBreaker_eq:
  "NewCircuitBreaker t0 =
     \<lparr>cb_state = StateClosed, cb_generation = 1, cb_counts = clear,
      cb_expiry = Some (t0 + 20000000000)\<rparr>"
  by (simp add: NewCircuitBreaker_def toNewGeneration_def Interval_def Second_def)

lemma three_failures:
  assumes "t1 \<le> t0 + Interval" "t2 \<le> t0 + Interval" "t3 \<le> t0 + Interval"
  shows "map cb_state (feed (NewCircuitBreaker t0) [(t1, False), (t2, False), (t3, False)])
           = [StateClosed, StateClosed, StateOpen]"
  using assms
  by (simp add: NewCircuitBreaker_eq Execute_closed ReadyToTrip_iff onRequest_def
      onFailure_def onSuccess_def clear_def setState_def toNewGeneration_def
      Interval_def Second_def word_le_nat_alt)

lemma five_outcomes:
  assumes "t1 \<le> t0 + Interval" "t2 \<le> t0 + Interval" "t3 \<le> t0 + Interval"
    "t4 \<le> t0 + Interval" "t5 \<le> t0 + Interval"
  shows "map cb_state (feed (NewCircuitBreaker t0)
            [(t1, False), (t2, True), (t3, False), (t4, True), (t5, False)])
           = [StateClosed, StateClosed, StateClosed, StateClosed, StateOpen]"
  using assms
  by (simp add: NewCircuitBreaker_eq Execute_closed ReadyToTrip_iff onRequest_def
      onFailure_def onSuccess_def clear_def setState_def toNewGeneration_def
      Interval_def Second_def word_le_nat_alt)

lemma tripped_eq:
  "tripped = \<lparr>cb_state = StateOpen, cb_generation = 2, cb_counts = clear,
      cb_expiry = Some 13000000000\<rparr>"
  by code_simp

lemma two_probes_admitted_eq:
  "two_probes_admitted = \<lparr>cb_state = StateHalfOpen, cb_generation = 3,
      cb_counts = clear\<lparr>Requests := 2\<rparr>, cb_expiry = None\<rparr>"
  by code_simp

lemma setState_open:
  "cb_state cb \<noteq> StateOpen \<Longrightarrow>
   cb_state (setState StateOpen now cb) = StateOpen \<and>
   cb_expiry (setState StateOpen now cb) = Some (now + Timeout)"
  by (simp add: setState_def toNewGeneration_def)

lemma Execute_closed_failure:
  assumes "cb_state cb = StateClosed" and "cb_expiry cb = Some e" and "now \<le> e"
  shows "cb_state (fst (snd (Execute now now (outcome False) cb ()))) =
           (if ReadyToTrip (onFailure (onRequest (cb_counts cb))) then StateOpen
            else StateClosed)"
  using assms by (simp add: Execute_closed setState_def toNewGeneration_def)

lemma beforeRequest_half_open:
  "cb_state cb = StateHalfOpen \<Longrightarrow> MaxRequests \<le> Requests (cb_counts cb) \<Longrightarrow>
   beforeRequest now cb = (Inl ErrTooManyRequests, cb)"
  by (simp add: beforeRequest_def currentState_def)

lemma Execute_half_open:
  "cb_state cb = StateHalfOpen \<Longrightarrow> MaxRequests \<le> Requests (cb_counts cb) \<Longrightarrow>
   Execute now now' req cb w = (Inl ErrTooManyRequests, cb, w)"
  by (simp add: Execute_def beforeRequest_half_open)

lemma callPaymentService_errors:
  "fst (callPaymentService get url w) \<noteq> Inl ErrOpenState"
  "fst (callPaymentService get url w) \<noteq> Inl ErrTooManyRequests"
  by (auto simp: callPaymentService_def split: prod.splits GetResult.splits)

lemma handleCheckout_status:
  assumes "execute (callPaymentService get (getFlakyServiceURL env)) cb w = (result, cb1, w1)"
  shows "fst (handleCheckout True get env execute cbState duration (cb, m, w)) =
           (case result of
              Inl e \<Rightarrow> if e = ErrOpenState then 503 else 502
            | Inr r \<Rightarrow> 200)"
  using assms
  by (simp add: handleCheckout_def Let_def split: prod.splits sum.splits)

lemma closed_failure_503:
  "Execute (4 * Second) (4 * Second) (callPaymentService scripted_get (getFlakyServiceURL []))
     (NewCircuitBreaker 0) (0, [503])
   = (Inl (ServiceError 503),
      (NewCircuitBreaker 0)\<lparr>cb_counts := onFailure (onRequest clear)\<rparr>, (1, []))"
  by code_simp

text \<open>
  C1. \<^verbatim>\<open>ReadyToTrip\<close> holds exactly when there are at least 3 consecutive failures,
  or at least 5 requests in the window of which at least half failed; the ratio computed
  in doubles decides as the exact ratio does. A breaker created at \<open>t0\<close> and fed the
  outcomes fail, fail, fail within its first window is closed after the first two and
  open after the third; fed fail, success, fail, success, fail it is closed after the
  first four and open after the fifth (3 failures in 5 requests). \<^verbatim>\<open>ReadyToTrip\<close> is
  the closure of \<^verbatim>\<open>main.go\<close>; the breaker consults it after each failure recorded in
  the closed state, and that failure opens the circuit exactly when the predicate holds
  of the counters that include it.
\<close>

theorem ReadyToTrip_trips:
  assumes "t1 < t0 + Interval" "t2 < t0 + Interval" "t3 < t0 + Interval"
    "t4 < t0 + Interval" "t5 < t0 + Interval"
  shows "ReadyToTrip c =
           (3 \<le> unat (ConsecutiveFailures c) \<or>
            (5 \<le> unat (Requests c) \<and>
             (1::rat) / 2 \<le> of_nat (unat (TotalFailures c)) / of_nat (unat (Requests c)))) \<and>
         (cb_state cb = StateClosed \<and> cb_expiry cb = Some e \<and> now < e \<longrightarrow>
            cb_state (fst (snd (Execute now now (outcome False) cb ()))) =
              (if ReadyToTrip (onFailure (onRequest (cb_counts cb))) then StateOpen
               else StateClosed)) \<and>
         map cb_state (feed (NewCircuitBreaker t0) [(t1, False), (t2, False), (t3, False)])
           = [StateClosed, StateClosed, StateOpen] \<and>
         map cb_state (feed (NewCircuitBreaker t0)
            [(t1, False), (t2, True), (t3, False), (t4, True), (t5, False)])
           = [StateClosed, StateClosed, StateClosed, StateClosed, StateOpen]"
proof -
  have step: "cb_state cb = StateClosed \<and> cb_expiry cb = Some e \<and> now < e \<longrightarrow>
      cb_state (fst (snd (Execute now now (outcome False) cb ()))) =
        (if ReadyToTrip (onFailure (onRequest (cb_counts cb))) then StateOpen
         else StateClosed)"
    using Execute_closed_failure [of cb e now] by simp
  have window: "t1 \<le> t0 + Interval" "t2 \<le> t0 + Interval" "t3 \<le> t0 + Interval"
    "t4 \<le> t0 + Interval" "t5 \<le> t0 + Interval"
    using assms by simp_all
  show ?thesis
    using step ReadyToTrip_exact [of c] three_failures [OF window(1,2,3)]
      five_outcomes [OF window]
    by (simp only: simp_thms)
qed

theorem ReadyToTrip_trips_witness:
  "ReadyToTrip (clear\<lparr>Requests := 5, TotalFailures := 3, ConsecutiveFailures := 1\<rparr>) \<and>
   cb_state (fst (snd (Execute (1 * Second) (1 * Second) (outcome False)
      (NewCircuitBreaker 0) ()))) = StateClosed \<and>
   map cb_state (feed (NewCircuitBreaker 0)
      [(1 * Second, False), (2 * Second, False), (3 * Second, False)])
     = [StateClosed, StateClosed, StateOpen] \<and>
   map cb_state (feed (NewCircuitBreaker 0)
      [(1 * Second, False), (2 * Second, True), (3 * Second, False), (4 * Second, True),
       (5 * Second, False)])
     = [StateClosed, StateClosed, StateClosed, StateClosed, StateOpen]"
proof -
  have w: "1 * Second < 0 + Interval" "2 * Second < 0 + Interval"
    "3 * Second < 0 + Interval" "4 * Second < 0 + Interval" "5 * Second < 0 + Interval"
    by (simp_all add: Interval_def Second_def)
  have r: "\<not> ReadyToTrip (onFailure (onRequest clear))"
    by (simp add: ReadyToTrip_iff onFailure_def onRequest_def clear_def word_le_nat_alt)
  show ?thesis
    using r ReadyToTrip_trips
      [OF w, of "clear\<lparr>Requests := 5, TotalFailures := 3, ConsecutiveFailures := 1\<rparr>"
         "NewCircuitBreaker 0" "20 * Second" "1 * Second"]
    by (simp add: clear_def NewCircuitBreaker_eq Second_def)
qed

text \<open>
  C6. While the circuit is open and the open timeout of 10 seconds has not elapsed since
  it opened, \<^verbatim>\<open>Execute\<close> returns \<^verbatim>\<open>ErrOpenState\<close> and leaves the breaker and the
  outside world as they are, whatever the downstream call is: the call is not invoked.
  In particular the number of calls counted by the scripted downstream stays the same.
\<close>

theorem open_circuit_refuses:
  assumes "cb_state cb = StateOpen" and "cb_expiry cb = Some (opened + Timeout)"
    and "now - opened < Timeout"
  shows "Execute now now' req cb w = (Inl ErrOpenState, cb, w) \<and>
         snd (snd (Execute now now' (callPaymentService scripted_get url) cb (calls, codes)))
           = (calls, codes)"
proof -
  have "now \<le> opened + Timeout" using assms(3) by simp
  with assms(1,2) show ?thesis by (simp add: Execute_open)
qed

theorem open_circuit_refuses_witness:
  "Execute (5 * Second) (6 * Second) (callPaymentService scripted_get ''u'') tripped (0, [200])
     = (Inl ErrOpenState, tripped, (0, [200]))"
proof -
  have "cb_state tripped = StateOpen"
    and "cb_expiry tripped = Some (3 * Second + Timeout)"
    and "5 * Second - 3 * Second < Timeout"
    by (simp_all add: tripped_eq Timeout_def Second_def)
  then show ?thesis
    using open_circuit_refuses
      [of tripped "3 * Second" "5 * Second" "6 * Second"
          "callPaymentService scripted_get ''u''" "(0, [200])" "''u''" 0 "[200]"]
    by simp
qed

text \<open>
  C4, as the claim states it, fails for the exhausted probe budget. With two probes
  admitted and unanswered the breaker is half-open; a third call is refused with
  \<^verbatim>\<open>ErrTooManyRequests\<close>, which is not the error the handler compares with, and the
  handler answers 502.
\<close>

theorem half_open_denial_counterexample:
  "cb_state two_probes_admitted = StateHalfOpen \<and>
   Execute (14 * Second) (14 * Second)
       (callPaymentService scripted_get (getFlakyServiceURL [])) two_probes_admitted (0, [])
     = (Inl ErrTooManyRequests, two_probes_admitted, (0, [])) \<and>
   fst (checkout scripted_get [] (14 * Second) (14 * Second) (14 * Second) 1000000
          (two_probes_admitted, metrics0, (0, []))) = 502"
  by code_simp

text \<open>
  C4, amended. A call that is denied admission does not invoke the downstream call and
  returns a sentinel error of the breaker: \<^verbatim>\<open>ErrOpenState\<close> while the circuit is
  open, which the handler answers with the 503 fast-fail response, and
  \<^verbatim>\<open>ErrTooManyRequests\<close> when the half-open probe budget is exhausted. Neither
  sentinel is an error of the downstream call, and a failure of the downstream call
  (a transport failure or a status other than 200) is answered with 502.
\<close>

theorem admission_denied:
  "(cb_state cb = StateOpen \<and> cb_expiry cb = Some t \<and> now < t \<longrightarrow>
      Execute now now' req cb w = (Inl ErrOpenState, cb, w) \<and>
      fst (checkout get env now now' now'' duration (cb, m, v)) = 503) \<and>
   (cb_state cb = StateHalfOpen \<and> MaxRequests \<le> Requests (cb_counts cb) \<longrightarrow>
      Execute now now' req cb w = (Inl ErrTooManyRequests, cb, w)) \<and>
   fst (callPaymentService get url v) \<noteq> Inl ErrOpenState \<and>
   fst (callPaymentService get url v) \<noteq> Inl ErrTooManyRequests \<and>
   (execute (callPaymentService get (getFlakyServiceURL env)) b v = (Inl e, b1, v1) \<and>
    (e = TransportFailure x \<or> e = ServiceError code) \<longrightarrow>
      fst (handleCheckout True get env execute cbState duration (b, m, v)) = 502)"
proof (intro conjI impI)
  assume "cb_state cb = StateOpen \<and> cb_expiry cb = Some t \<and> now < t"
  then have a: "cb_state cb = StateOpen \<and> cb_expiry cb = Some t \<and> now \<le> t" by simp
  then show "Execute now now' req cb w = (Inl ErrOpenState, cb, w)"
    by (simp add: Execute_open)
  from a have "Execute now now' (callPaymentService get (getFlakyServiceURL env)) cb v
      = (Inl ErrOpenState, cb, v)"
    by (simp add: Execute_open)
  then show "fst (checkout get env now now' now'' duration (cb, m, v)) = 503"
    by (simp add: checkout_def handleCheckout_status)
next
  assume "cb_state cb = StateHalfOpen \<and> MaxRequests \<le> Requests (cb_counts cb)"
  then show "Execute now now' req cb w = (Inl ErrTooManyRequests, cb, w)"
    by (simp add: Execute_half_open)
next
  show "fst (callPaymentService get url v) \<noteq> Inl ErrOpenState"
    by (rule callPaymentService_errors)
  show "fst (callPaymentService get url v) \<noteq> Inl ErrTooManyRequests"
    by (rule callPaymentService_errors)
next
  assume "execute (callPaymentService get (getFlakyServiceURL env)) b v = (Inl e, b1, v1) \<and>
    (e = TransportFailure x \<or> e = ServiceError code)"
  then show "fst (handleCheckout True get env execute cbState duration (b, m, v)) = 502"
    by (auto simp: handleCheckout_status)
qed

theorem admission_denied_witness:
  "Execute (5 * Second) (5 * Second) (outcome False) tripped () = (Inl ErrOpenState, tripped, ()) \<and>
   fst (checkout scripted_get [] (5 * Second) (5 * Second) (5 * Second) 1000000
          (tripped, metrics0, (0, []))) = 503 \<and>
   Execute (14 * Second) (14 * Second) (outcome False) two_probes_admitted ()
     = (Inl ErrTooManyRequests, two_probes_admitted, ()) \<and>
   fst (handleCheckout True scripted_get [] (Execute (4 * Second) (4 * Second))
          (State_of (4 * Second)) 1000000 (NewCircuitBreaker 0, metrics0, (0, [503]))) = 502"
proof -
  have o: "cb_state tripped = StateOpen \<and> cb_expiry tripped = Some (13 * Second) \<and>
      5 * Second < 13 * Second"
    by (simp add: tripped_eq Second_def)
  have h: "cb_state two_probes_admitted = StateHalfOpen \<and>
      MaxRequests \<le> Requests (cb_counts two_probes_admitted)"
    by (simp add: two_probes_admitted_eq MaxRequests_def clear_def)
  show ?thesis
    using o h closed_failure_503
      admission_denied
        [of tripped "13 * Second" "5 * Second" "5 * Second" "outcome False" "()"
            scripted_get "[]" "5 * Second" 1000000 metrics0 "(0, [])" "[]"
            "Execute (4 * Second) (4 * Second)" "NewCircuitBreaker 0" "ServiceError 503"
            "(NewCircuitBreaker 0)\<lparr>cb_counts := onFailure (onRequest clear)\<rparr>"
            "(1, [])" "[]" 503 "State_of (4 * Second)"]
      admission_denied
        [of two_probes_admitted 0 "14 * Second" "14 * Second" "outcome False" "()"
            scripted_get "[]" "5 * Second" 1000000 metrics0 "(0, [503])" "[]"
            "Execute (4 * Second) (4 * Second)" "NewCircuitBreaker 0" "ServiceError 503"
            "(NewCircuitBreaker 0)\<lparr>cb_counts := onFailure (onRequest clear)\<rparr>"
            "(1, [])" "[]" 503 "State_of (4 * Second)"]
    by simp
qed

section \<open>Percentiles\<close>

lemma literal64_values:
  "literal64 (1 / 2) = 1 / 2"
  "literal64 (19 / 20) = 4278419646001971 / 4503599627370496"
  "literal64 (99 / 100) = 4458563631096791 / 4503599627370496"
  by code_simp+

lemma calculatePercentile_store:
  assumes "a < next_free h"
  shows "calculatePercentile a p h =
     (if arrays h a = [] then (0, h)
      else
        (ascending (arrays h a) !
           nat (if int (length (arrays h a))
                     \<le> int_of_float64 (fmul64 (float64_of_int (int (length (arrays h a)))) p)
                then int (length (arrays h a)) - 1
                else int_of_float64 (fmul64 (float64_of_int (int (length (arrays h a)))) p)),
         h\<lparr>arrays := (arrays h)(next_free h := ascending (arrays h a)),
           next_free := next_free h + 1\<rparr>))"
  using assms
  by (simp add: calculatePercentile_def make_slice_def copy_slice_def sort_Slice_def Let_def
      ascending_def)

lemma calculatePercentile_frame:
  assumes "a < next_free h" and "b < next_free h"
  shows "arrays (snd (calculatePercentile a p h)) b = arrays h b"
    and "next_free h \<le> next_free (snd (calculatePercentile a p h))"
  using assms by (simp_all add: calculatePercentile_store)

lemma float64_of_length:
  "n < 2 ^ 53 \<Longrightarrow> float64_of_int (int n) = of_nat n"
  by (simp add: float64_of_int_def round64_of_nat)

lemma percentile_index:
  assumes n0: "0 < n" and n1: "n < 2 ^ 45" and P: "P = 50 \<or> P = 95 \<or> P = 99"
  shows "int_of_float64 (fmul64 (float64_of_int (int n)) (literal64 (of_nat P / 100)))
           = int (n * P div 100)"
proof -
  define c where "c = literal64 (of_nat P / 100)"
  define d where "d = of_nat P / 100 - c"
  have c: "c = of_nat P / 100 - d" by (simp add: d_def)
  have d0: "0 \<le> d" and d1: "d * 2 ^ 52 \<le> 1 / 5" and d2: "4 * d * 2 ^ 52 \<le> c"
    and c1: "1 / 2 \<le> c" and P100: "P < 100"
    using P by (auto simp: d_def c_def literal64_values)
  have fl: "\<lfloor>round64 (of_nat n * c)\<rfloor> = int (n * P div 100)"
    using c d0 d1 d2 c1 P100 n0 n1 by (rule round64_scaled_index)
  then have "of_int (int (n * P div 100)) \<le> round64 (of_nat n * c)"
    by (metis of_int_floor_le)
  then have nonneg: "0 \<le> round64 (of_nat n * c)" by simp
  have "n < 2 ^ 53" using n1 by simp
  then have "float64_of_int (int n) = of_nat n" by (rule float64_of_length)
  then show ?thesis
    using fl nonneg by (simp add: fmul64_def int_of_float64_def c_def)
qed

lemma calculatePercentile_index:
  assumes "a < next_free h" and "arrays h a \<noteq> []" and "length (arrays h a) < 2 ^ 45"
    and "P = 50 \<or> P = 95 \<or> P = 99"
  shows "fst (calculatePercentile a (literal64 (of_nat P / 100)) h)
           = ascending (arrays h a) ! (length (arrays h a) * P div 100)"
proof -
  have n0: "0 < length (arrays h a)" using assms(2) by simp
  have idx: "int_of_float64 (fmul64 (float64_of_int (int (length (arrays h a))))
      (literal64 (of_nat P / 100))) = int (length (arrays h a) * P div 100)"
    using n0 assms(3,4) by (rule percentile_index)
  have "length (arrays h a) * P < length (arrays h a) * 100" using assms(4) n0 by auto
  then have lt: "length (arrays h a) * P div 100 < length (arrays h a)"
    by (rule less_mult_imp_div_less)
  show ?thesis
    using assms(1,2) lt by (simp add: calculatePercentile_store idx)
qed

lemma ascending_sorted: "sorted (map sint (ascending xs)) \<and> mset (ascending xs) = mset xs"
  by (simp add: ascending_def)

lemma ascending_example:
  "ascending [30000000, 10000000, 50000000, 20000000, 40000000]
     = [10000000, 20000000, 30000000, 40000000, 50000000]"
  by code_simp

lemma store_of_simps [simp]:
  "arrays (store_of xs) 0 = xs" "next_free (store_of xs) = 1"
  by (simp_all add: store_of_def)

text \<open>
  C5. For a non-empty latency history and \<open>P\<close> one of 50, 95 and 99,
  \<^verbatim>\<open>calculatePercentile\<close> returns the element of the ascending rearrangement of the
  history at index \<open>\<lfloor>count * P / 100\<rfloor>\<close>, clamped to \<open>count - 1\<close>: the index that the
  source computes in doubles is this integer. The rearrangement is sorted in the signed
  order and is a permutation of the history. For the empty history the result is 0, and
  for the history of 10, 20, 30, 40 and 50 ms (in any order) the median is 30 ms and
  the 95th percentile 50 ms. The history is an allocated array and is taken to hold
  fewer than \<open>2^45\<close> entries, which is more 8-byte elements than a 48-bit address space
  has room for; far beyond that length the rounding of the product can reach the next
  integer.
\<close>

theorem calculatePercentile_nearest_rank:
  "(a < next_free h \<and> arrays h a \<noteq> [] \<and> length (arrays h a) < 2 ^ 45 \<and>
    (P = 50 \<or> P = 95 \<or> P = 99) \<longrightarrow>
      fst (calculatePercentile a (literal64 (of_nat P / 100)) h)
        = ascending (arrays h a)
            ! min (length (arrays h a) * P div 100) (length (arrays h a) - 1)) \<and>
   sorted (map sint (ascending latencies)) \<and>
   mset (ascending latencies) = mset latencies \<and>
   (arrays h a = [] \<longrightarrow> fst (calculatePercentile a percentile h) = 0) \<and>
   fst (calculatePercentile 0 (literal64 (50 / 100))
          (store_of [30000000, 10000000, 50000000, 20000000, 40000000])) = 30000000 \<and>
   fst (calculatePercentile 0 (literal64 (95 / 100))
          (store_of [30000000, 10000000, 50000000, 20000000, 40000000])) = 50000000"
proof (intro conjI impI)
  assume a: "a < next_free h \<and> arrays h a \<noteq> [] \<and> length (arrays h a) < 2 ^ 45 \<and>
    (P = 50 \<or> P = 95 \<or> P = 99)"
  then have n0: "0 < length (arrays h a)" by simp
  have "length (arrays h a) * P < length (arrays h a) * 100" using a n0 by auto
  then have "length (arrays h a) * P div 100 < length (arrays h a)"
    by (rule less_mult_imp_div_less)
  then have "min (length (arrays h a) * P div 100) (length (arrays h a) - 1)
      = length (arrays h a) * P div 100" by simp
  then show "fst (calculatePercentile a (literal64 (of_nat P / 100)) h)
        = ascending (arrays h a)
            ! min (length (arrays h a) * P div 100) (length (arrays h a) - 1)"
    using a by (simp add: calculatePercentile_index)
next
  show "sorted (map sint (ascending latencies))" by (simp add: ascending_sorted)
  show "mset (ascending latencies) = mset latencies" by (simp add: ascending_sorted)
  show "fst (calculatePercentile a percentile h) = 0" if "arrays h a = []"
    using that by (simp add: calculatePercentile_def)
  show "fst (calculatePercentile 0 (literal64 (50 / 100))
          (store_of [30000000, 10000000, 50000000, 20000000, 40000000])) = 30000000"
    by code_simp
  show "fst (calculatePercentile 0 (literal64 (95 / 100))
          (store_of [30000000, 10000000, 50000000, 20000000, 40000000])) = 50000000"
    by code_simp
qed

theorem calculatePercentile_nearest_rank_witness:
  "fst (calculatePercentile 0 (literal64 (of_nat 99 / 100))
          (store_of [30000000, 10000000, 50000000, 20000000, 40000000])) = 50000000 \<and>
   fst (calculatePercentile 0 (literal64 (of_nat 99 / 100)) (store_of [])) = 0"
proof -
  have "0 < next_free (store_of [30000000, 10000000, 50000000, 20000000, 40000000]) \<and>
      arrays (store_of [30000000, 10000000, 50000000, 20000000, 40000000]) 0 \<noteq> [] \<and>
      length (arrays (store_of [30000000, 10000000, 50000000, 20000000, 40000000]) 0)
        < 2 ^ 45 \<and>
      ((99::nat) = 50 \<or> (99::nat) = 95 \<or> (99::nat) = 99)"
    by simp
  then have "fst (calculatePercentile 0 (literal64 (of_nat 99 / 100))
          (store_of [30000000, 10000000, 50000000, 20000000, 40000000]))
      = ascending (arrays (store_of [30000000, 10000000, 50000000, 20000000, 40000000]) 0)
          ! min (length (arrays (store_of
                   [30000000, 10000000, 50000000, 20000000, 40000000]) 0) * 99 div 100)
              (length (arrays (store_of
                   [30000000, 10000000, 50000000, 20000000, 40000000]) 0) - 1)"
    using calculatePercentile_nearest_rank
      [of 0 "store_of [30000000, 10000000, 50000000, 20000000, 40000000]" 99]
    by blast
  moreover have "arrays (store_of []) 0 = []" by simp
  then have "fst (calculatePercentile 0 (literal64 (of_nat 99 / 100)) (store_of [])) = 0"
    using calculatePercentile_nearest_rank
      [of 0 "store_of []" 99 "[]" "literal64 (of_nat 99 / 100)"]
    by blast
  ultimately show ?thesis by (simp add: ascending_example)
qed

section \<open>The metrics snapshot\<close>

lemma sint_word_of_int_64:
  "- (2 ^ 63) \<le> k \<Longrightarrow> k < 2 ^ 63 \<Longrightarrow> sint (word_of_int k :: 64 word) = k"
  by (simp add: signed_of_int signed_take_bit_int_eq_self)

lemma sum_list_words:
  "(sum_list ws :: 64 word) = word_of_int (sum_list (map sint ws))"
  by (induction ws) simp_all

lemma record_attempts_latency:
  "TotalLatency (record_attempts as m) = TotalLatency m + sum_list (map (fst \<circ> snd) as) \<and>
   LatencyHistory (record_attempts as m) = LatencyHistory m @ map (fst \<circ> snd) as"
  by (induction as m rule: record_attempts.induct)
     (simp_all add: updateMetrics_fields add.assoc)

lemma round64_zero [simp]: "round64 0 = 0"
  by (simp add: round64_def)

lemma round64_rel_error:
  assumes "0 < x" and "- 1022 \<le> binade x"
  shows "\<bar>round64 x - x\<bar> \<le> x / 2 ^ 53"
proof -
  have q: "quantum x = 2 powi (binade x - 52)" using assms by (rule quantum_eq)
  have "2 ^ 52 * quantum x = 2 powi binade x"
    using powi_two_52 [of "binade x"] by (simp add: q)
  also have "\<dots> \<le> x" using assms(1) by (rule binade_lower)
  finally have "quantum x / 2 \<le> x / 2 ^ 53" by simp
  with round64_error [OF assms(1)] show ?thesis by linarith
qed

lemma success_rate_error:
  fixes S T :: nat
  assumes T0: "0 < T" and ST: "S \<le> T" and T53: "T < 2 ^ 53"
  shows "\<bar>fmul64 (fdiv64 (float64_of_int (int S)) (float64_of_int (int T))) 100
            - 100 * (of_nat S / of_nat T)\<bar>
           \<le> 100 * (of_nat S / of_nat T) / 2 ^ 51"
proof -
  have S53: "S < 2 ^ 53" using ST T53 by simp
  have conv: "float64_of_int (int S) = of_nat S" "float64_of_int (int T) = of_nat T"
    using S53 T53 by (simp_all add: float64_of_int_def round64_of_nat)
  define x :: rat where "x = of_nat S / of_nat T"
  show ?thesis
  proof (cases "S = 0")
    case True
    then show ?thesis by (simp add: conv fdiv64_def fmul64_def float64_of_int_def)
  next
    case False
    have Tr: "(of_nat T :: rat) \<le> 2 ^ 53"
    proof -
      have "(of_nat T :: rat) \<le> of_nat (2 ^ 53)" using T53 by (simp only: of_nat_le_iff less_imp_le)
      then show ?thesis by simp
    qed
    have Sr: "(1::rat) \<le> of_nat S" using False by simp
    have T0r: "(0::rat) < of_nat T" using T0 by simp
    have "1 / 2 ^ 53 \<le> 1 / (of_nat T :: rat)"
      using Tr T0r by (simp add: field_simps)
    also have "\<dots> \<le> x" using Sr T0r by (simp add: x_def field_simps)
    finally have "2 powi (- 53) \<le> x" by (simp add: power_int_minus field_simps)
    then have e: "- 53 \<le> binade x" by (rule binade_ge)
    have x0: "0 < x" using False T0 by (simp add: x_def)
    define r1 where "r1 = round64 x"
    have r1e: "\<bar>r1 - x\<bar> \<le> x / 2 ^ 53"
      unfolding r1_def using x0 e by (intro round64_rel_error) simp_all
    have "2 powi binade x \<le> r1"
      unfolding r1_def using x0 e by (intro round64_ge_binade) simp_all
    then have lo: "2 powi binade x \<le> r1 * 100"
      using zero_less_power_int [of "2::rat" "binade x"] by linarith
    then have e2: "binade x \<le> binade (r1 * 100)" by (rule binade_ge)
    have y0: "0 < r1 * 100" using lo zero_less_power_int [of "2::rat" "binade x"] by linarith
    define r2 where "r2 = round64 (r1 * 100)"
    have r2e: "\<bar>r2 - r1 * 100\<bar> \<le> r1 * 100 / 2 ^ 53"
      unfolding r2_def using y0 e e2 by (intro round64_rel_error) simp_all
    have a: "x - x / 2 ^ 53 \<le> r1" "r1 \<le> x + x / 2 ^ 53" using r1e by linarith+
    have b: "r1 * 100 - r1 * 100 / 2 ^ 53 \<le> r2" "r2 \<le> r1 * 100 + r1 * 100 / 2 ^ 53"
      using r2e by linarith+
    have "- (100 * x / 2 ^ 51) \<le> r2 - 100 * x" "r2 - 100 * x \<le> 100 * x / 2 ^ 51"
      using a b x0 by simp_all
    then have "\<bar>r2 - 100 * x\<bar> \<le> 100 * x / 2 ^ 51" by linarith
    then show ?thesis by (simp add: conv fdiv64_def fmul64_def r2_def r1_def x_def)
  qed
qed

lemma calculatePercentile_keeps_history:
  assumes "0 < next_free h"
  shows "arrays (snd (calculatePercentile 0 p h)) 0 = arrays h 0 \<and>
         0 < next_free (snd (calculatePercentile 0 p h))"
  using assms calculatePercentile_frame [OF assms assms, of p] by simp

lemma handleMetrics_snd: "snd (handleMetrics c st m) = m"
proof -
  define h0 where "h0 = store_of (LatencyHistory m)"
  define h1 where "h1 = snd (calculatePercentile 0 (literal64 (50 / 100)) h0)"
  define h2 where "h2 = snd (calculatePercentile 0 (literal64 (95 / 100)) h1)"
  define h3 where "h3 = snd (calculatePercentile 0 (literal64 (99 / 100)) h2)"
  have k0: "arrays h0 0 = LatencyHistory m \<and> 0 < next_free h0" by (simp add: h0_def)
  have k1: "arrays h1 0 = LatencyHistory m \<and> 0 < next_free h1"
    unfolding h1_def using k0 calculatePercentile_keeps_history [of h0] by simp
  have k2: "arrays h2 0 = LatencyHistory m \<and> 0 < next_free h2"
    unfolding h2_def using k1 calculatePercentile_keeps_history [of h1] by simp
  have k3: "arrays h3 0 = LatencyHistory m"
    unfolding h3_def using k2 calculatePercentile_keeps_history [of h2] by simp
  have "snd (handleMetrics c st m) = m\<lparr>LatencyHistory := arrays h3 0\<rparr>"
    by (simp add: handleMetrics_def Let_def h3_def h2_def h1_def h0_def split: prod.splits)
  then show ?thesis by (simp add: k3)
qed

lemma handleMetrics_rates:
  "success_rate (fst (handleMetrics c st m)) =
     (if 0 < TotalRequests m
      then fmul64 (fdiv64 (float64_of_int (SuccessfulRequests m))
                          (float64_of_int (TotalRequests m))) 100
      else 0) \<and>
   avg_latency (fst (handleMetrics c st m)) =
     (if 0 < TotalRequests m
      then div64 (TotalLatency m) (word_of_int (TotalRequests m)) else 0)"
  by (simp add: handleMetrics_def Let_def split: prod.splits)

lemma div64_exact:
  assumes "0 < n" and "n < 2 ^ 63" and "- (2 ^ 63) \<le> k" and "k < 2 ^ 63"
  shows "sint (div64 (word_of_int k) (word_of_int n)) = k sdiv n"
proof -
  have n: "sint (word_of_int n :: 64 word) = n"
    using assms(1,2) by (intro sint_word_of_int_64) simp_all
  have k: "sint (word_of_int k :: 64 word) = k"
    using assms(3,4) by (rule sint_word_of_int_64)
  have "- (2 ^ 63) \<le> k sdiv n \<and> k sdiv n < 2 ^ 63"
  proof (cases "0 \<le> k")
    case True
    then have "k sdiv n = k div n" using assms(1) by (simp add: signed_divide_int_def sgn_if)
    moreover have "0 \<le> k div n" using True assms(1) by (simp add: pos_imp_zdiv_nonneg_iff)
    moreover have "k div n \<le> k"
      using True int_div_le_self [of k n] by (cases "k = 0") simp_all
    ultimately show ?thesis using assms(4) by simp
  next
    case False
    then have e: "k sdiv n = - (- k div n)"
      using assms(1) by (simp add: signed_divide_int_def sgn_if)
    have "0 \<le> - k div n" using False assms(1) by (simp add: pos_imp_zdiv_nonneg_iff)
    moreover have "- k div n \<le> - k" using False by (intro int_div_le_self) simp
    ultimately show ?thesis using assms(3) e by simp
  qed
  then have "- (2 ^ 63) \<le> k sdiv n" "k sdiv n < 2 ^ 63" by simp_all
  then have "sint (word_of_int (k sdiv n) :: 64 word) = k sdiv n"
    by (rule sint_word_of_int_64)
  then show ?thesis by (simp add: div64_def n k)
qed

lemma half_success_rate:
  "fmul64 (fdiv64 (float64_of_int 1) (float64_of_int 2)) 100 = 50"
  by code_simp

text \<open>
  C8. Let the metrics be those recorded from a sequence of attempts. With no attempt
  recorded the snapshot reports the success rate 0 and the average latency 0. Otherwise
  the success rate is \<open>success_count / total * 100\<close> evaluated in doubles, which differs
  from the exact value by at most the fraction \<open>2^-51\<close> of it (for fewer than \<open>2^53\<close>
  attempts, whose counts are doubles), and the average latency is the \<^verbatim>\<open>int64\<close>
  quotient of the sum of the recorded latencies by the total; when the sum of the
  latencies fits into 64 bits this is the exact sum divided by the total, rounded towards
  zero.
\<close>

theorem snapshot_rates:
  "(as = [] \<longrightarrow>
      success_rate (fst (handleMetrics c st (record_attempts as metrics0))) = 0 \<and>
      avg_latency (fst (handleMetrics c st (record_attempts as metrics0))) = 0) \<and>
   (as \<noteq> [] \<longrightarrow>
      success_rate (fst (handleMetrics c st (record_attempts as metrics0))) =
        fmul64 (fdiv64 (float64_of_int (int (length (filter (\<lambda>a. fst a = None) as))))
                       (float64_of_int (int (length as)))) 100 \<and>
      avg_latency (fst (handleMetrics c st (record_attempts as metrics0))) =
        div64 (sum_list (map (fst \<circ> snd) as)) (word_of_int (int (length as)))) \<and>
   (as \<noteq> [] \<and> length as < 2 ^ 53 \<longrightarrow>
      \<bar>success_rate (fst (handleMetrics c st (record_attempts as metrics0)))
         - 100 * (of_nat (length (filter (\<lambda>a. fst a = None) as)) / of_nat (length as))\<bar>
        \<le> 100 * (of_nat (length (filter (\<lambda>a. fst a = None) as)) / of_nat (length as))
             / 2 ^ 51) \<and>
   (as \<noteq> [] \<and> length as < 2 ^ 63 \<and>
    - (2 ^ 63) \<le> sum_list (map (sint \<circ> fst \<circ> snd) as) \<and>
    sum_list (map (sint \<circ> fst \<circ> snd) as) < 2 ^ 63 \<longrightarrow>
      sint (avg_latency (fst (handleMetrics c st (record_attempts as metrics0)))) =
        sum_list (map (sint \<circ> fst \<circ> snd) as) sdiv int (length as))"
proof -
  define m where "m = record_attempts as metrics0"
  define S where "S = length (filter (\<lambda>a. fst a = None) as)"
  have T: "TotalRequests m = int (length as)"
    and Sm: "SuccessfulRequests m = int S"
    using record_attempts_counts [of as metrics0] by (simp_all add: m_def S_def metrics0_def)
  have L: "TotalLatency m = sum_list (map (fst \<circ> snd) as)"
    using record_attempts_latency [of as metrics0] by (simp add: m_def metrics0_def)
  have rates: "success_rate (fst (handleMetrics c st m)) =
      (if as = [] then 0
       else fmul64 (fdiv64 (float64_of_int (int S)) (float64_of_int (int (length as)))) 100)"
    "avg_latency (fst (handleMetrics c st m)) =
      (if as = [] then 0
       else div64 (sum_list (map (fst \<circ> snd) as)) (word_of_int (int (length as))))"
    using handleMetrics_rates [of c st m] by (simp_all add: T Sm L)
  have bound: "\<bar>success_rate (fst (handleMetrics c st m))
         - 100 * (of_nat S / of_nat (length as))\<bar>
        \<le> 100 * (of_nat S / of_nat (length as)) / 2 ^ 51"
    if "as \<noteq> []" "length as < 2 ^ 53"
  proof -
    have "S \<le> length as" by (simp add: S_def)
    moreover have "0 < length as" using that(1) by simp
    ultimately show ?thesis
      using that success_rate_error [of "length as" S] by (simp only: rates if_False)
  qed
  have avg: "sint (avg_latency (fst (handleMetrics c st m))) =
        sum_list (map (sint \<circ> fst \<circ> snd) as) sdiv int (length as)"
    if "as \<noteq> []" "length as < 2 ^ 63"
      "- (2 ^ 63) \<le> sum_list (map (sint \<circ> fst \<circ> snd) as)"
      "sum_list (map (sint \<circ> fst \<circ> snd) as) < 2 ^ 63"
  proof -
    have w: "sum_list (map (fst \<circ> snd) as) =
        (word_of_int (sum_list (map (sint \<circ> fst \<circ> snd) as)) :: 64 word)"
      using sum_list_words [of "map (fst \<circ> snd) as"] by (simp add: comp_assoc)
    have n0: "0 < int (length as)" using that(1) by simp
    have n1: "int (length as) < 2 ^ 63"
    proof -
      have "int (length as) < int (2 ^ 63)" using that(2) by (simp only: of_nat_less_iff)
      then show ?thesis by simp
    qed
    show ?thesis
      using that(1) div64_exact [OF n0 n1 that(3,4)]
      by (simp only: rates if_False w)
  qed
  have c1: "as = [] \<longrightarrow>
      success_rate (fst (handleMetrics c st m)) = 0 \<and>
      avg_latency (fst (handleMetrics c st m)) = 0"
    using rates by simp
  have c2: "as \<noteq> [] \<longrightarrow>
      success_rate (fst (handleMetrics c st m)) =
        fmul64 (fdiv64 (float64_of_int (int S)) (float64_of_int (int (length as)))) 100 \<and>
      avg_latency (fst (handleMetrics c st m)) =
        div64 (sum_list (map (fst \<circ> snd) as)) (word_of_int (int (length as)))"
    using rates by simp
  show ?thesis
    unfolding m_def [symmetric] S_def [symmetric]
    using c1 c2 bound avg by blast
qed

theorem snapshot_rates_witness:
  "success_rate (fst (handleMetrics clear StateClosed (record_attempts [] metrics0))) = 0 \<and>
   avg_latency (fst (handleMetrics clear StateClosed (record_attempts [] metrics0))) = 0 \<and>
   success_rate (fst (handleMetrics clear StateClosed
      (record_attempts
         [(None, 10000000, StateClosed), (Some (ServiceError 500), 20000000, StateClosed)]
         metrics0))) = 50 \<and>
   sint (avg_latency (fst (handleMetrics clear StateClosed
      (record_attempts
         [(None, 10000000, StateClosed), (Some (ServiceError 500), 20000000, StateClosed)]
         metrics0)))) = 15000000"
  using snapshot_rates [of "[]" clear StateClosed]
    snapshot_rates
      [of "[(None, 10000000, StateClosed), (Some (ServiceError 500), 20000000, StateClosed)]"
          clear StateClosed]
    half_success_rate
  by (simp add: div64_def)

lemma two_calls_counted_eq:
  "two_calls_counted =
     \<lparr>cb_state = StateClosed, cb_generation = 1,
      cb_counts = \<lparr>Requests = 2, TotalSuccesses = 1, TotalFailures = 1,
                   ConsecutiveSuccesses = 1, ConsecutiveFailures = 0\<rparr>,
      cb_expiry = Some 20000000000\<rparr>"
  by code_simp

lemma metrics_handler_eq:
  "metrics_handler cbCounts cbState (cb, m) =
     (fst (handleMetrics (cbCounts cb) (fst (cbState cb)) m), snd (cbState cb), m)"
  using handleMetrics_snd [of "cbCounts cb" "fst (cbState cb)" m]
  by (cases "handleMetrics (cbCounts cb) (fst (cbState cb)) m")
     (simp add: metrics_handler_def Let_def)

lemma handleMetrics_readings:
  "fst (handleMetrics c st m) = (fst (handleMetrics c' st' m))\<lparr>circuit_state := st, circuit_counts := c\<rparr>"
  by (simp add: handleMetrics_def Let_def split: prod.splits)

lemma snapshot_quiet:
  "currentState now cb = cb \<Longrightarrow>
   snapshot now (cb, m) = (fst (handleMetrics (cb_counts cb) (cb_state cb) m), cb, m)"
  by (simp add: snapshot_def metrics_handler_eq State_of_def Counts_of_def)

lemma tripped_quiet:
  "currentState (5 * Second) tripped = tripped \<and> currentState (6 * Second) tripped = tripped"
  by (simp add: tripped_eq currentState_open Second_def)

text \<open>
  C9, as the claim states it, fails. The handler reads \<^verbatim>\<open>cb.Counts()\<close> and then
  \<^verbatim>\<open>cb.State()\<close>, and \<^verbatim>\<open>State\<close> evaluates the breaker's timers. On a closed
  breaker whose window has run out, the first snapshot reports the counters of the old
  window and, by reading the state, starts a new one; a second snapshot at the same
  instant, with nothing recorded in between, reports cleared counters. The two
  responses differ and the first snapshot has changed the breaker.
\<close>

theorem snapshot_twice_counterexample:
  "circuit_counts (fst (snapshot (25 * Second) (two_calls_counted, metrics0)))
     = \<lparr>Requests = 2, TotalSuccesses = 1, TotalFailures = 1,
        ConsecutiveSuccesses = 1, ConsecutiveFailures = 0\<rparr> \<and>
   circuit_counts
     (fst (snapshot (25 * Second) (snd (snapshot (25 * Second) (two_calls_counted, metrics0)))))
     = clear \<and>
   fst (snapshot (25 * Second) (snd (snapshot (25 * Second) (two_calls_counted, metrics0))))
     \<noteq> fst (snapshot (25 * Second) (two_calls_counted, metrics0)) \<and>
   fst (snd (snapshot (25 * Second) (two_calls_counted, metrics0))) \<noteq> two_calls_counted"
  by code_simp

text \<open>
  C9, amended. Computing the snapshot leaves the metrics as they were, the latency
  history included: \<^verbatim>\<open>calculatePercentile\<close> sorts the array it has made itself, and
  every array that was allocated before the call has the same contents after it. The
  response is a function of the metrics and of the two readings of the breaker, so the
  fields derived from the metrics (totals, rates, average and percentiles) are the same
  in any two snapshots with no recording in between, for every breaker; the fields
  \<open>circuit_state\<close> and \<open>circuit_counts\<close> are the breaker's. When no timer of the
  breaker is due at the instants of two snapshots, the first leaves the breaker as it
  was and the second gives the same response.
\<close>

theorem snapshot_repeatable:
  "snd (snd (metrics_handler cbCounts cbState (cb, m))) = m \<and>
   fst (metrics_handler cbCounts cbState (cb, m))
     = fst (handleMetrics (cbCounts cb) (fst (cbState cb)) m) \<and>
   (fst (metrics_handler cbCounts cbState (cb, m)))\<lparr>circuit_state := st, circuit_counts := c\<rparr>
     = (fst (metrics_handler cbCounts' cbState' (cb', m)))
         \<lparr>circuit_state := st, circuit_counts := c\<rparr> \<and>
   snd (handleMetrics c st m) = m \<and>
   fst (handleMetrics c st (snd (handleMetrics c st m))) = fst (handleMetrics c st m) \<and>
   (a < next_free h \<and> b < next_free h \<longrightarrow>
      arrays (snd (calculatePercentile a percentile h)) b = arrays h b) \<and>
   (currentState now br = br \<and> currentState now' br = br \<longrightarrow>
      snapshot now (br, m) = (fst (snapshot now (br, m)), br, m) \<and>
      fst (snapshot now' (snd (snapshot now (br, m)))) = fst (snapshot now (br, m)))"
proof (intro conjI impI)
  show "snd (snd (metrics_handler cbCounts cbState (cb, m))) = m"
    by (simp add: metrics_handler_eq)
  show "fst (metrics_handler cbCounts cbState (cb, m))
     = fst (handleMetrics (cbCounts cb) (fst (cbState cb)) m)"
    by (simp add: metrics_handler_eq)
  show "(fst (metrics_handler cbCounts cbState (cb, m)))\<lparr>circuit_state := st, circuit_counts := c\<rparr>
     = (fst (metrics_handler cbCounts' cbState' (cb', m)))
         \<lparr>circuit_state := st, circuit_counts := c\<rparr>"
    using handleMetrics_readings [of "cbCounts cb" "fst (cbState cb)" m
        "cbCounts' cb'" "fst (cbState' cb')"]
    by (simp add: metrics_handler_eq)
  show "snd (handleMetrics c st m) = m" by (rule handleMetrics_snd)
  show "fst (handleMetrics c st (snd (handleMetrics c st m))) = fst (handleMetrics c st m)"
    by (simp add: handleMetrics_snd)
next
  assume "a < next_free h \<and> b < next_free h"
  then show "arrays (snd (calculatePercentile a percentile h)) b = arrays h b"
    by (simp add: calculatePercentile_frame)
next
  assume q: "currentState now br = br \<and> currentState now' br = br"
  then show "snapshot now (br, m) = (fst (snapshot now (br, m)), br, m)"
    by (simp add: snapshot_quiet)
  from q show "fst (snapshot now' (snd (snapshot now (br, m)))) = fst (snapshot now (br, m))"
    by (simp add: snapshot_quiet)
qed

theorem snapshot_repeatable_witness:
  "fst (snapshot (6 * Second) (snd (snapshot (5 * Second) (tripped, metrics0))))
     = fst (snapshot (5 * Second) (tripped, metrics0)) \<and>
   snd (snapshot (5 * Second) (tripped, metrics0)) = (tripped, metrics0) \<and>
   arrays (snd (calculatePercentile 0 (literal64 (50 / 100))
      (store_of [30000000, 10000000, 50000000, 20000000, 40000000]))) 0
     = [30000000, 10000000, 50000000, 20000000, 40000000]"
proof -
  have s: "0 < next_free (store_of [30000000, 10000000, 50000000, 20000000, 40000000]) \<and>
      0 < next_free (store_of [30000000, 10000000, 50000000, 20000000, 40000000])"
    by simp
  have t: "snapshot (5 * Second) (tripped, metrics0)
      = (fst (snapshot (5 * Second) (tripped, metrics0)), tripped, metrics0) \<and>
    fst (snapshot (6 * Second) (snd (snapshot (5 * Second) (tripped, metrics0))))
      = fst (snapshot (5 * Second) (tripped, metrics0)) \<and>
    arrays (snd (calculatePercentile 0 (literal64 (50 / 100))
      (store_of [30000000, 10000000, 50000000, 20000000, 40000000]))) 0
     = arrays (store_of [30000000, 10000000, 50000000, 20000000, 40000000]) 0"
    using s tripped_quiet
      snapshot_repeatable
        [where cbCounts = Counts_of and cbState = "State_of (5 * Second)" and cb = tripped
           and m = metrics0 and st = StateOpen and c = clear and cbCounts' = Counts_of
           and cbState' = "State_of (5 * Second)" and cb' = tripped and a = 0
           and h = "store_of [30000000, 10000000, 50000000, 20000000, 40000000]" and b = 0
           and percentile = "literal64 (50 / 100)" and now = "5 * Second" and br = tripped
           and now' = "6 * Second"]
    by blast
  then have "snd (snapshot (5 * Second) (tripped, metrics0)) = (tripped, metrics0)"
    by (metis snd_conv)
  with t show ?thesis by simp
qed

end
